theory Spec2Isabelle
  imports Complex_Main "HOL-Library.Word"
begin

section \<open>The node store\<close>

text \<open>
  The lists of \<^verbatim>\<open>main.cpp\<close> are chains of nodes allocated with \<^verbatim>\<open>new\<close> and released
  with \<^verbatim>\<open>delete\<close>. A store is a list of cells; the address of a cell is its index. A cell
  is \<open>Some c\<close> while the object is alive and \<open>None\<close> once it has been deleted. Allocation
  takes the next unused index, so an address is never handed out twice and every access
  through a dangling pointer is visible. A pointer is an \<open>addr option\<close>, \<open>None\<close> being
  \<^verbatim>\<open>NULL\<close>. Allocation never fails (the source does not check for it either).

  Every operation returns an \<open>option\<close>: \<open>None\<close> stands for a call without a defined
  result, that is a loop that never ends, an access through \<^verbatim>\<open>NULL\<close> or through a
  dangling pointer, or a second \<^verbatim>\<open>delete\<close> of the same object.
\<close>

type_synonym addr = nat
type_synonym 'c heap = "'c option list"

definition lookup :: "'c heap \<Rightarrow> addr \<Rightarrow> 'c option" where
  "lookup h a = (if a < length h then h ! a else None)"

definition alloc :: "'c \<Rightarrow> 'c heap \<Rightarrow> addr \<times> 'c heap" where
  "alloc c h = (length h, h @ [Some c])"

definition store :: "addr \<Rightarrow> 'c \<Rightarrow> 'c heap \<Rightarrow> 'c heap option" where
  "store a c h = (if lookup h a = None then None else Some (h[a := Some c]))"

definition delete :: "addr \<Rightarrow> 'c heap \<Rightarrow> 'c heap option" where
  "delete a h = (if lookup h a = None then None else Some (h[a := None]))"

section \<open>ListaSensor<T>\<close>

record 'a Nodo =
  dato :: 'a
  siguiente :: "addr option"

text \<open>
  The three members of the class. \<open>n_elems\<close> is the member \<^verbatim>\<open>n\<close>, a \<^verbatim>\<open>size_t\<close> of 64 bits.
  It counts live nodes, whose number the address space bounds, so that \<^verbatim>\<open>n++\<close> cannot
  overflow and is the successor on \<open>nat\<close>.
\<close>

record ListaSensor =
  cabeza :: "addr option"
  cola :: "addr option"
  n_elems :: nat

definition ListaSensor_vacia :: ListaSensor where
  "ListaSensor_vacia = \<lparr>cabeza = None, cola = None, n_elems = 0\<rparr>"

definition push_back ::
  "'a \<Rightarrow> 'a Nodo heap \<times> ListaSensor \<Rightarrow> ('a Nodo heap \<times> ListaSensor) option" where
  "push_back v s =
     (case s of (h, l) \<Rightarrow>
        (case alloc \<lparr>dato = v, siguiente = None\<rparr> h of (nuevo, h1) \<Rightarrow>
           (case cabeza l of
              None \<Rightarrow>
                Some (h1, l\<lparr>cabeza := Some nuevo, cola := Some nuevo, n_elems := n_elems l + 1\<rparr>)
            | Some _ \<Rightarrow>
                (case cola l of
                   None \<Rightarrow> None
                 | Some c \<Rightarrow>
                     (case lookup h1 c of
                        None \<Rightarrow> None
                      | Some cn \<Rightarrow>
                          (case store c (cn\<lparr>siguiente := Some nuevo\<rparr>) h1 of
                             None \<Rightarrow> None
                           | Some h2 \<Rightarrow>
                               Some (h2, l\<lparr>cola := Some nuevo, n_elems := n_elems l + 1\<rparr>)))))))"

definition size_lista :: "ListaSensor \<Rightarrow> nat" where
  "size_lista l = n_elems l"

partial_function (option) sum_loop ::
  "'a::{zero,plus} Nodo heap \<Rightarrow> addr option \<Rightarrow> 'a \<Rightarrow> 'a option" where
  "sum_loop h it s =
     (case it of
        None \<Rightarrow> Some s
      | Some a \<Rightarrow>
          (case lookup h a of
             None \<Rightarrow> None
           | Some nd \<Rightarrow> sum_loop h (siguiente nd) (s + dato nd)))"

definition sum_lista :: "'a::{zero,plus} Nodo heap \<Rightarrow> ListaSensor \<Rightarrow> 'a option" where
  "sum_lista h l = (if cabeza l = None then Some 0 else sum_loop h (cabeza l) 0)"

text \<open>
  The scan of \<^verbatim>\<open>pop_min\<close>. The loop variables are \<^verbatim>\<open>minPrev\<close>, \<^verbatim>\<open>minNode\<close>, \<^verbatim>\<open>prev\<close> and
  \<^verbatim>\<open>curr\<close> (here \<open>cur\<close>); the comparison is the strict \<open><\<close> of the element type.
\<close>

partial_function (option) pop_min_loop ::
  "'a::ord Nodo heap \<Rightarrow> addr option \<Rightarrow> addr \<Rightarrow> addr option \<Rightarrow> addr option
     \<Rightarrow> (addr option \<times> addr) option" where
  "pop_min_loop h minPrev minNode prev cur =
     (case cur of
        None \<Rightarrow> Some (minPrev, minNode)
      | Some c \<Rightarrow>
          (case lookup h c of
             None \<Rightarrow> None
           | Some cn \<Rightarrow>
               (case lookup h minNode of
                  None \<Rightarrow> None
                | Some mn \<Rightarrow>
                    if dato cn < dato mn
                    then pop_min_loop h prev c (Some c) (siguiente cn)
                    else pop_min_loop h minPrev minNode (Some c) (siguiente cn))))"

text \<open>
  \<^verbatim>\<open>pop_min\<close> takes the current value of the output parameter and returns the state, the
  boolean result and the final value of the output parameter. The decrement \<^verbatim>\<open>n--\<close> of the
  64-bit counter wraps around at 0.
\<close>

definition pop_min ::
  "'a::ord \<Rightarrow> 'a Nodo heap \<times> ListaSensor
     \<Rightarrow> (('a Nodo heap \<times> ListaSensor) \<times> bool \<times> 'a) option" where
  "pop_min outMin s =
     (case s of (h, l) \<Rightarrow>
        (case cabeza l of
           None \<Rightarrow> Some ((h, l), False, outMin)
         | Some c0 \<Rightarrow>
             (case pop_min_loop h None c0 None (Some c0) of
                None \<Rightarrow> None
              | Some (minPrev, minNode) \<Rightarrow>
                  (case lookup h minNode of
                     None \<Rightarrow> None
                   | Some mn \<Rightarrow>
                       (case
                          (case minPrev of
                             None \<Rightarrow>
                               Some (h, l\<lparr>cabeza := siguiente mn,
                                          cola := (if cola l = Some minNode then siguiente mn
                                                   else cola l)\<rparr>)
                           | Some p \<Rightarrow>
                               (case lookup h p of
                                  None \<Rightarrow> None
                                | Some pn \<Rightarrow>
                                    (case store p (pn\<lparr>siguiente := siguiente mn\<rparr>) h of
                                       None \<Rightarrow> None
                                     | Some h1 \<Rightarrow>
                                         Some (h1, l\<lparr>cola := (if cola l = Some minNode
                                                               then Some p else cola l)\<rparr>))))
                        of
                          None \<Rightarrow> None
                        | Some (h1, l1) \<Rightarrow>
                            (case delete minNode h1 of
                               None \<Rightarrow> None
                             | Some h2 \<Rightarrow>
                                 Some ((h2, l1\<lparr>n_elems := (if n_elems l1 = 0 then 2 ^ 64 - 1
                                                    else n_elems l1 - 1)\<rparr>),
                                       True, dato mn)))))))"

partial_function (option) clear_loop ::
  "'a Nodo heap \<Rightarrow> addr option \<Rightarrow> 'a Nodo heap option" where
  "clear_loop h it =
     (case it of
        None \<Rightarrow> Some h
      | Some a \<Rightarrow>
          (case lookup h a of
             None \<Rightarrow> None
           | Some nd \<Rightarrow>
               (case delete a h of
                  None \<Rightarrow> None
                | Some h1 \<Rightarrow> clear_loop h1 (siguiente nd))))"

definition clear :: "'a Nodo heap \<times> ListaSensor \<Rightarrow> ('a Nodo heap \<times> ListaSensor) option" where
  "clear s =
     (case s of (h, l) \<Rightarrow>
        (case clear_loop h (cabeza l) of
           None \<Rightarrow> None
         | Some h1 \<Rightarrow> Some (h1, l\<lparr>cabeza := None, cola := None, n_elems := 0\<rparr>)))"

text \<open>
  \<^verbatim>\<open>copiarDesde\<close> appends the values of \<^verbatim>\<open>other\<close> to this list. It is private and is
  called by the copy constructor and, behind the test \<^verbatim>\<open>this != &other\<close>, by the assignment,
  so \<^verbatim>\<open>other\<close> is another object than this list and its members stay as they are while
  the loop runs; the loop reads \<^verbatim>\<open>it->siguiente\<close> after the \<^verbatim>\<open>push_back\<close>.
\<close>

partial_function (option) copiarDesde_loop ::
  "addr option \<Rightarrow> 'a Nodo heap \<times> ListaSensor \<Rightarrow> ('a Nodo heap \<times> ListaSensor) option" where
  "copiarDesde_loop it st =
     (case it of
        None \<Rightarrow> Some st
      | Some a \<Rightarrow>
          (case lookup (fst st) a of
             None \<Rightarrow> None
           | Some nd \<Rightarrow>
               (case push_back (dato nd) st of
                  None \<Rightarrow> None
                | Some st1 \<Rightarrow>
                    (case lookup (fst st1) a of
                       None \<Rightarrow> None
                     | Some nd1 \<Rightarrow> copiarDesde_loop (siguiente nd1) st1))))"

definition copiarDesde ::
  "ListaSensor \<Rightarrow> 'a Nodo heap \<times> ListaSensor \<Rightarrow> ('a Nodo heap \<times> ListaSensor) option" where
  "copiarDesde other st = copiarDesde_loop (cabeza other) st"

text \<open>The copy constructor: the new object starts empty and copies from \<^verbatim>\<open>other\<close>.\<close>

definition ListaSensor_copia ::
  "ListaSensor \<Rightarrow> 'a Nodo heap \<Rightarrow> ('a Nodo heap \<times> ListaSensor) option" where
  "ListaSensor_copia other h = copiarDesde other (h, ListaSensor_vacia)"

text \<open>
  The assignment compares the addresses of the two list objects, so it is modelled over
  a store of list objects \<open>L\<close>, in which \<open>this\<close> and \<open>other\<close> are the addresses of the
  left and the right operand.
\<close>

definition operator_asignar ::
  "nat \<Rightarrow> nat \<Rightarrow> 'a Nodo heap \<times> (nat \<Rightarrow> ListaSensor)
     \<Rightarrow> ('a Nodo heap \<times> (nat \<Rightarrow> ListaSensor)) option" where
  "operator_asignar this other st =
     (case st of (h, L) \<Rightarrow>
        if this \<noteq> other
        then (case clear (h, L this) of
                None \<Rightarrow> None
              | Some (h1, l1) \<Rightarrow>
                  (case copiarDesde (L other) (h1, l1) of
                     None \<Rightarrow> None
                   | Some (h2, l2) \<Rightarrow> Some (h2, L(this := l2))))
        else Some (h, L))"

section \<open>The representation invariant of ListaSensor\<close>

text \<open>
  \<open>tramo h p as q\<close>: following \<^verbatim>\<open>siguiente\<close> from the pointer \<open>p\<close> visits exactly the live
  nodes at the addresses \<open>as\<close>, in this order, and then arrives at the pointer \<open>q\<close>.
  \<open>cadena h p as\<close> is a complete chain: it ends in \<^verbatim>\<open>NULL\<close>.
\<close>

fun tramo :: "'a Nodo heap \<Rightarrow> addr option \<Rightarrow> addr list \<Rightarrow> addr option \<Rightarrow> bool" where
  "tramo h p [] q = (p = q)"
| "tramo h p (a # as) q =
     (p = Some a \<and> (case lookup h a of None \<Rightarrow> False | Some nd \<Rightarrow> tramo h (siguiente nd) as q))"

abbreviation cadena :: "'a Nodo heap \<Rightarrow> addr option \<Rightarrow> addr list \<Rightarrow> bool" where
  "cadena h p as \<equiv> tramo h p as None"

definition datos :: "'a Nodo heap \<Rightarrow> addr list \<Rightarrow> 'a list" where
  "datos h as = map (\<lambda>a. dato (the (lookup h a))) as"

text \<open>
  A list object is well formed over the node addresses \<open>as\<close>: \<^verbatim>\<open>cabeza\<close> starts the chain,
  \<^verbatim>\<open>cola\<close> is its last node (or \<^verbatim>\<open>NULL\<close> when there is none) and \<^verbatim>\<open>n\<close> is its length.
\<close>

definition bien_formada :: "'a Nodo heap \<Rightarrow> ListaSensor \<Rightarrow> addr list \<Rightarrow> bool" where
  "bien_formada h l as \<longleftrightarrow>
     cadena h (cabeza l) as \<and>
     cola l = (if as = [] then None else Some (last as)) \<and>
     n_elems l = length as"

text \<open>
  \<open>marco h h' as\<close>: the step from the store \<open>h\<close> to \<open>h'\<close> has left alone every cell of
  \<open>h\<close> outside the addresses \<open>as\<close>; it may have allocated new cells.
\<close>

definition marco :: "'c heap \<Rightarrow> 'c heap \<Rightarrow> addr list \<Rightarrow> bool" where
  "marco h h' as \<longleftrightarrow>
     length h \<le> length h' \<and> (\<forall>b < length h. b \<notin> set as \<longrightarrow> lookup h' b = lookup h b)"

section \<open>Sequences of operations on one list\<close>

text \<open>
  A caller's use of a list since its construction: a sequence of calls. \<open>PopMin v\<close> carries
  the value that the caller's output variable holds before the call. \<open>aplicar\<close> runs one
  call and returns the new state with the success of the call: the boolean result of
  \<^verbatim>\<open>pop_min\<close>; \<^verbatim>\<open>push_back\<close> and \<^verbatim>\<open>clear\<close> return nothing and always succeed.
\<close>

datatype 'a operacion = PushBack 'a | PopMin 'a | Clear

fun aplicar ::
  "'a::ord operacion \<Rightarrow> 'a Nodo heap \<times> ListaSensor \<Rightarrow> (('a Nodo heap \<times> ListaSensor) \<times> bool) option" where
  "aplicar (PushBack v) s = (case push_back v s of None \<Rightarrow> None | Some s' \<Rightarrow> Some (s', True))"
| "aplicar (PopMin outMin) s =
     (case pop_min outMin s of None \<Rightarrow> None | Some (s', ok, _) \<Rightarrow> Some (s', ok))"
| "aplicar Clear s = (case clear s of None \<Rightarrow> None | Some s' \<Rightarrow> Some (s', True))"

fun ejecutar ::
  "'a::ord operacion list \<Rightarrow> 'a Nodo heap \<times> ListaSensor
     \<Rightarrow> (('a Nodo heap \<times> ListaSensor) \<times> bool list) option" where
  "ejecutar [] s = Some (s, [])"
| "ejecutar (op # ops) s =
     (case aplicar op s of
        None \<Rightarrow> None
      | Some (s1, ok) \<Rightarrow>
          (case ejecutar ops s1 of
             None \<Rightarrow> None
           | Some (s2, oks) \<Rightarrow> Some (s2, ok # oks)))"

text \<open>
  Two ways of predicting the size from the calls made and their successes. The first is
  the count as the specification words it: appends minus successful \<^verbatim>\<open>popMin\<close> and
  \<^verbatim>\<open>clear\<close> calls. The second counts only the calls made after the last \<^verbatim>\<open>clear\<close>.
\<close>

definition es_push :: "'a operacion \<times> bool \<Rightarrow> bool" where
  "es_push x = (case fst x of PushBack _ \<Rightarrow> True | _ \<Rightarrow> False)"

definition es_pop_ok :: "'a operacion \<times> bool \<Rightarrow> bool" where
  "es_pop_ok x = (case fst x of PopMin _ \<Rightarrow> snd x | _ \<Rightarrow> False)"

definition es_clear :: "'a operacion \<times> bool \<Rightarrow> bool" where
  "es_clear x = (case fst x of Clear \<Rightarrow> True | _ \<Rightarrow> False)"

definition size_segun_spec :: "('a operacion \<times> bool) list \<Rightarrow> int" where
  "size_segun_spec tr =
     int (length (filter es_push tr)) -
     int (length (filter (\<lambda>x. es_pop_ok x \<or> (es_clear x \<and> snd x)) tr))"

definition desde_ultimo_clear :: "('a operacion \<times> bool) list \<Rightarrow> ('a operacion \<times> bool) list" where
  "desde_ultimo_clear tr = rev (takeWhile (\<lambda>x. \<not> es_clear x) (rev tr))"

definition size_desde_clear :: "('a operacion \<times> bool) list \<Rightarrow> int" where
  "size_desde_clear tr =
     int (length (filter es_push (desde_ultimo_clear tr))) -
     int (length (filter es_pop_ok (desde_ultimo_clear tr)))"

section \<open>Sensors\<close>

text \<open>
  The reading types. A \<^verbatim>\<open>float\<close> is idealised as a real number: rounding, infinities and
  NaN are outside this model. An \<^verbatim>\<open>int\<close> is a 32-bit word read in two's complement
  (\<open>sint\<close>); its addition wraps around, which is what the hardware does where C++ leaves
  signed overflow undefined.
\<close>

type_synonym cfloat = real
type_synonym cint = "32 word"

text \<open>
  A sensor object: its dynamic class, the buffer \<^verbatim>\<open>char nombre[50]\<close> and the member
  \<^verbatim>\<open>historial\<close>. The nodes of the history live in the store of their element type. A
  \<^verbatim>\<open>const char*\<close> argument is the text in front of its terminating NUL, a \<open>string\<close>
  without NUL characters.
\<close>

datatype clase = Temperatura | Presion

record SensorBase =
  clase :: clase
  nombre :: "char list"
  historial :: ListaSensor

definition strncpy :: "string \<Rightarrow> nat \<Rightarrow> char list" where
  "strncpy src k = take k src @ replicate (k - length src) (CHR 0x00)"

definition nombre_inicial :: "string \<Rightarrow> char list" where
  "nombre_inicial ident = (strncpy ident 50)[49 := CHR 0x00]"

definition SensorTemperatura :: "string \<Rightarrow> SensorBase" where
  "SensorTemperatura ident =
     \<lparr>clase = Temperatura, nombre = nombre_inicial ident, historial = ListaSensor_vacia\<rparr>"

definition SensorPresion :: "string \<Rightarrow> SensorBase" where
  "SensorPresion ident =
     \<lparr>clase = Presion, nombre = nombre_inicial ident, historial = ListaSensor_vacia\<rparr>"

definition getNombre :: "SensorBase \<Rightarrow> string" where
  "getNombre s = takeWhile (\<lambda>c. c \<noteq> CHR 0x00) (nombre s)"


subsection \<open>Scanning a number\<close>

text \<open>
  \<^verbatim>\<open>sscanf(texto, "%d", &v)\<close> and \<^verbatim>\<open>sscanf(texto, "%f", &v)\<close>, after the C standard: white
  space is skipped, then the longest prefix that is or starts a number is taken, and the
  conversion fails when that prefix is not a number; what follows the number is ignored.
  The result is \<open>Convertido v\<close> when \<^verbatim>\<open>sscanf\<close> returns 1 and has stored \<open>v\<close>, \<open>Falla\<close> when
  it returns anything else, and \<open>NoModelado\<close> for the texts this model takes no position
  on: for \<^verbatim>\<open>%d\<close>, an optional sign and decimal digits, a value outside the range of \<^verbatim>\<open>int\<close>
  (undefined in the C standard); for \<^verbatim>\<open>%f\<close>, where the model covers decimal numbers with
  an optional fraction and exponent, the hexadecimal, infinity and NaN forms (they have no
  counterpart in \<open>real\<close>) and an exponent letter without digits (on which C libraries
  differ).
\<close>

datatype 'a scan = Convertido 'a | Falla | NoModelado










subsection \<open>SensorTemperatura and SensorPresion\<close>



text \<open>
  What \<^verbatim>\<open>procesarLectura\<close> prints after its heading, one constructor for each \<^verbatim>\<open>printf\<close>:
  no readings; lowest reading removed, with the removed value and the average of the rest;
  average over a count (the branch of the temperature sensor taken when \<^verbatim>\<open>pop_min\<close>
  returns false); average of a pressure sensor with the count. An average is the exact
  quotient; the rounding of the \<^verbatim>\<open>float\<close> division is not modelled.
\<close>

datatype reporte =
    SinLecturas
  | MinimaEliminada cfloat cfloat
  | PromedioCalculado nat cfloat
  | PromedioPresion cfloat nat

text \<open>The average of a list of readings, 0 when there is none.\<close>

definition media :: "real list \<Rightarrow> real" where
  "media xs = (if xs = [] then 0 else sum_list xs / real (length xs))"

definition promedio_T :: "cfloat Nodo heap \<Rightarrow> ListaSensor \<Rightarrow> cfloat option" where
  "promedio_T h l =
     (if size_lista l > 0
      then (case sum_lista h l of None \<Rightarrow> None | Some s \<Rightarrow> Some (s / real (size_lista l)))
      else Some 0)"

definition procesarLectura_T ::
  "cfloat Nodo heap \<times> SensorBase \<Rightarrow> ((cfloat Nodo heap \<times> SensorBase) \<times> reporte) option" where
  "procesarLectura_T st =
     (case st of (h, s) \<Rightarrow>
        if size_lista (historial s) = 0 then Some ((h, s), SinLecturas)
        else
          (case pop_min 0 (h, historial s) of
             None \<Rightarrow> None
           | Some ((h', l'), ok, eliminado) \<Rightarrow>
               if ok
               then (case promedio_T h' l' of
                       None \<Rightarrow> None
                     | Some promedio \<Rightarrow>
                         Some ((h', s\<lparr>historial := l'\<rparr>), MinimaEliminada eliminado promedio))
               else (case promedio_T h' l' of
                       None \<Rightarrow> None
                     | Some promedio \<Rightarrow>
                         Some ((h', s\<lparr>historial := l'\<rparr>),
                               PromedioCalculado (size_lista l') promedio))))"







section \<open>ListaGeneral\<close>

text \<open>
  A node of \<^verbatim>\<open>ListaGeneral\<close> has the members \<^verbatim>\<open>sensor\<close>, a \<^verbatim>\<open>SensorBase*\<close>, and \<^verbatim>\<open>siguiente\<close>:
  the layout of a \<open>Nodo\<close> whose \<open>dato\<close> is a pointer, and \<open>sensor\<close> is written for \<open>dato\<close>.
  The class has the three members of \<open>ListaSensor\<close>, and the text of its \<^verbatim>\<open>push_back\<close> is
  that of \<^verbatim>\<open>ListaSensor::push_back\<close>, so the record and the function above are used for
  both.
\<close>

type_synonym NodoG = "addr option Nodo"
type_synonym ListaGeneral = ListaSensor

abbreviation sensor :: "NodoG \<Rightarrow> addr option" where
  "sensor \<equiv> dato"

text \<open>
  The whole memory: the nodes of the float and of the int histories, the sensor objects,
  the nodes of the registry, and the sensor objects destroyed so far in the order of their
  destruction.
\<close>

record mundo =
  nodosF :: "cfloat Nodo heap"
  nodosI :: "cint Nodo heap"
  sensores :: "SensorBase heap"
  nodosG :: "NodoG heap"
  destruidos :: "addr list"

text \<open>\<^verbatim>\<open>strcmp\<close> on two texts; the C standard fixes the sign of the result only.\<close>

fun strcmp :: "string \<Rightarrow> string \<Rightarrow> int" where
  "strcmp [] [] = 0"
| "strcmp [] (b # bs) = - 1"
| "strcmp (a # as) [] = 1"
| "strcmp (a # as) (b # bs) =
     (if a = b then strcmp as bs else if (of_char a :: nat) < of_char b then - 1 else 1)"

partial_function (option) buscar_loop ::
  "SensorBase heap \<Rightarrow> NodoG heap \<Rightarrow> addr option \<Rightarrow> string \<Rightarrow> addr option option" where
  "buscar_loop hs hg it ident =
     (case it of
        None \<Rightarrow> Some None
      | Some a \<Rightarrow>
          (case lookup hg a of
             None \<Rightarrow> None
           | Some nd \<Rightarrow>
               (case sensor nd of
                  None \<Rightarrow> None
                | Some sp \<Rightarrow>
                    (case lookup hs sp of
                       None \<Rightarrow> None
                     | Some s \<Rightarrow>
                         if strcmp (getNombre s) ident = 0 then Some (Some sp)
                         else buscar_loop hs hg (siguiente nd) ident))))"

text \<open>\<^verbatim>\<open>buscarPorNombre\<close> returns a pointer to a sensor, \<open>None\<close> being \<^verbatim>\<open>NULL\<close>.\<close>

definition buscarPorNombre ::
  "string \<Rightarrow> SensorBase heap \<times> NodoG heap \<times> ListaGeneral \<Rightarrow> addr option option" where
  "buscarPorNombre ident st = (case st of (hs, hg, g) \<Rightarrow> buscar_loop hs hg (cabeza g) ident)"

text \<open>
  \<^verbatim>\<open>delete it->sensor\<close>, after the name of the sensor has been read for the message: the
  virtual destructor of the sensor's class runs, the destructor of the member
  \<^verbatim>\<open>historial\<close> calls \<^verbatim>\<open>clear\<close> on the store of the class's readings, and the object is
  released.
\<close>

definition delete_sensor :: "addr option \<Rightarrow> mundo \<Rightarrow> mundo option" where
  "delete_sensor p w =
     (case p of
        None \<Rightarrow> None
      | Some sp \<Rightarrow>
          (case lookup (sensores w) sp of
             None \<Rightarrow> None
           | Some s \<Rightarrow>
               (case clase s of
                  Temperatura \<Rightarrow>
                    (case clear (nodosF w, historial s) of
                       None \<Rightarrow> None
                     | Some (hF, _) \<Rightarrow>
                         (case delete sp (sensores w) of
                            None \<Rightarrow> None
                          | Some hs \<Rightarrow>
                              Some (w\<lparr>nodosF := hF, sensores := hs,
                                      destruidos := destruidos w @ [sp]\<rparr>)))
                | Presion \<Rightarrow>
                    (case clear (nodosI w, historial s) of
                       None \<Rightarrow> None
                     | Some (hI, _) \<Rightarrow>
                         (case delete sp (sensores w) of
                            None \<Rightarrow> None
                          | Some hs \<Rightarrow>
                              Some (w\<lparr>nodosI := hI, sensores := hs,
                                      destruidos := destruidos w @ [sp]\<rparr>))))))"

partial_function (option) liberar_loop :: "mundo \<Rightarrow> addr option \<Rightarrow> mundo option" where
  "liberar_loop w it =
     (case it of
        None \<Rightarrow> Some w
      | Some a \<Rightarrow>
          (case lookup (nodosG w) a of
             None \<Rightarrow> None
           | Some nd \<Rightarrow>
               (case delete_sensor (sensor nd) w of
                  None \<Rightarrow> None
                | Some w1 \<Rightarrow>
                    (case delete a (nodosG w1) of
                       None \<Rightarrow> None
                     | Some hg \<Rightarrow> liberar_loop (w1\<lparr>nodosG := hg\<rparr>) (siguiente nd)))))"

definition liberarTodo :: "mundo \<times> ListaGeneral \<Rightarrow> (mundo \<times> ListaGeneral) option" where
  "liberarTodo st =
     (case st of (w, g) \<Rightarrow>
        (case cabeza g of
           None \<Rightarrow> Some (w, g)
         | Some _ \<Rightarrow>
             (case liberar_loop w (cabeza g) of
                None \<Rightarrow> None
              | Some w1 \<Rightarrow> Some (w1, g\<lparr>cabeza := None, cola := None, n_elems := 0\<rparr>))))"

text \<open>The destructor of \<^verbatim>\<open>ListaGeneral\<close> calls \<^verbatim>\<open>liberarTodo\<close>; the list object is gone then.\<close>

definition ListaGeneral_destructor :: "mundo \<times> ListaGeneral \<Rightarrow> mundo option" where
  "ListaGeneral_destructor st = (case liberarTodo st of None \<Rightarrow> None | Some (w1, _) \<Rightarrow> Some w1)"

subsection \<open>The invariant of the registry\<close>

text \<open>
  \<open>borrar xs h\<close> is the store \<open>h\<close> after the cells \<open>xs\<close> have been released.
  \<open>sensor_ok w sp k c\<close>: \<open>sp\<close> is a live sensor of class \<open>k\<close> whose history is well formed
  over the nodes \<open>c\<close> in the store of its class. \<open>sensores_ok w es\<close>: every entry of \<open>es\<close>, a
  sensor with its class and the nodes of its history, is such a sensor, no sensor occurs
  twice and no two histories share a node. \<open>registro_ok w g gs es\<close>: the registry \<open>g\<close> is a
  well-formed list over the nodes \<open>gs\<close>, which point to the sensors of \<open>es\<close> in this order.
\<close>

definition borrar :: "addr list \<Rightarrow> 'c heap \<Rightarrow> 'c heap" where
  "borrar xs h = fold (\<lambda>x h. h[x := None]) xs h"

definition sensor_ok :: "mundo \<Rightarrow> addr \<Rightarrow> clase \<Rightarrow> addr list \<Rightarrow> bool" where
  "sensor_ok w sp k c =
     (case lookup (sensores w) sp of
        None \<Rightarrow> False
      | Some s \<Rightarrow>
          clase s = k \<and>
          (case k of
             Temperatura \<Rightarrow> bien_formada (nodosF w) (historial s) c
           | Presion \<Rightarrow> bien_formada (nodosI w) (historial s) c))"

fun sensores_ok :: "mundo \<Rightarrow> (addr \<times> clase \<times> addr list) list \<Rightarrow> bool" where
  "sensores_ok w [] = True"
| "sensores_ok w (e # es) =
     (sensor_ok w (fst e) (fst (snd e)) (snd (snd e)) \<and>
      (\<forall>e' \<in> set es. fst e' \<noteq> fst e \<and>
         (fst (snd e') = fst (snd e) \<longrightarrow> set (snd (snd e')) \<inter> set (snd (snd e)) = {})) \<and>
      sensores_ok w es)"

definition cadenas_de :: "clase \<Rightarrow> (addr \<times> clase \<times> addr list) list \<Rightarrow> addr list" where
  "cadenas_de k es = concat (map (\<lambda>e. if fst (snd e) = k then snd (snd e) else []) es)"

definition registro_ok ::
  "mundo \<Rightarrow> ListaGeneral \<Rightarrow> addr list \<Rightarrow> (addr \<times> clase \<times> addr list) list \<Rightarrow> bool" where
  "registro_ok w g gs es \<longleftrightarrow>
     bien_formada (nodosG w) g gs \<and> datos (nodosG w) gs = map (\<lambda>e. Some (fst e)) es \<and>
     sensores_ok w es"

text \<open>
  \<open>tras_liberar gs es w\<close> is the memory \<open>w\<close> after the registry nodes \<open>gs\<close>, the sensors of
  \<open>es\<close> and the nodes of their histories have been released, the sensors being recorded as
  destroyed in the order of \<open>es\<close>.
\<close>

definition tras_liberar ::
  "addr list \<Rightarrow> (addr \<times> clase \<times> addr list) list \<Rightarrow> mundo \<Rightarrow> mundo" where
  "tras_liberar gs es w =
     w\<lparr>nodosF := borrar (cadenas_de Temperatura es) (nodosF w),
       nodosI := borrar (cadenas_de Presion es) (nodosI w),
       sensores := borrar (map fst es) (sensores w),
       nodosG := borrar gs (nodosG w),
       destruidos := destruidos w @ map fst es\<rparr>"

section \<open>Properties of the store and of chains\<close>

subsection \<open>Store lemmas\<close>

lemma lookup_Some_lt: "lookup h a = Some c \<Longrightarrow> a < length h"
  by (simp add: lookup_def split: if_splits)

lemma lookup_ge: "length h \<le> a \<Longrightarrow> lookup h a = None"
  by (simp add: lookup_def)

lemma lookup_snoc: "lookup (h @ [x]) a = (if a = length h then x else lookup h a)"
  by (auto simp: lookup_def nth_append)

lemma lookup_upd: "lookup (h[a := x]) b = (if b = a \<and> a < length h then x else lookup h b)"
  by (auto simp: lookup_def)

lemma store_Some: "lookup h a = Some c \<Longrightarrow> store a c' h = Some (h[a := Some c'])"
  by (simp add: store_def)

lemma delete_Some: "lookup h a = Some c \<Longrightarrow> delete a h = Some (h[a := None])"
  by (simp add: delete_def)

subsection \<open>Chains\<close>

lemma tramo_append:
  "tramo h p (as @ bs) q \<longleftrightarrow> (\<exists>r. tramo h p as r \<and> tramo h r bs q)"
  by (induction as arbitrary: p) (auto split: option.splits)

lemma tramo_vivo: "tramo h p as q \<Longrightarrow> a \<in> set as \<Longrightarrow> \<exists>nd. lookup h a = Some nd"
  by (induction as arbitrary: p) (auto split: option.splits)

lemma tramo_lt: "tramo h p as q \<Longrightarrow> a \<in> set as \<Longrightarrow> a < length h"
  using tramo_vivo lookup_Some_lt by fastforce

lemma tramo_cong:
  "(\<And>a. a \<in> set as \<Longrightarrow> lookup h' a = lookup h a) \<Longrightarrow> tramo h' p as q = tramo h p as q"
  by (induction as arbitrary: p) (auto split: option.splits)

lemma datos_cong:
  "(\<And>a. a \<in> set as \<Longrightarrow> lookup h' a = lookup h a) \<Longrightarrow> datos h' as = datos h as"
  by (simp add: datos_def)

lemma cadena_unica: "cadena h p as \<Longrightarrow> cadena h p bs \<Longrightarrow> as = bs"
proof (induction as arbitrary: p bs)
  case Nil
  then show ?case by (cases bs) auto
next
  case (Cons a as)
  then show ?case by (cases bs) (auto split: option.splits)
qed

lemma cadena_distinct: "cadena h p as \<Longrightarrow> distinct as"
proof (induction as arbitrary: p)
  case Nil
  then show ?case by simp
next
  case (Cons a as)
  from Cons.prems obtain nd where nd: "lookup h a = Some nd" and tl: "cadena h (siguiente nd) as"
    by (auto split: option.splits)
  have "a \<notin> set as"
  proof
    assume "a \<in> set as"
    then obtain us vs where split: "as = us @ a # vs"
      by (meson split_list)
    with tl obtain r where "tramo h r (a # vs) None"
      by (auto simp: tramo_append)
    with nd have "cadena h (siguiente nd) vs" by simp
    with tl have "as = vs" by (rule cadena_unica)
    with split show False by simp
  qed
  with Cons.IH [OF tl] show ?case by simp
qed

lemma marco_refl: "marco h h as"
  by (simp add: marco_def)

lemma marco_trans: "marco h h1 as \<Longrightarrow> marco h1 h2 as \<Longrightarrow> marco h h2 as"
  by (auto simp: marco_def)

lemma marco_mono: "marco h h' as \<Longrightarrow> set as \<subseteq> set bs \<Longrightarrow> marco h h' bs"
  by (auto simp: marco_def)

lemma marco_lookup:
  assumes "marco h h' as" and "tramo h p bs q" and "set bs \<inter> set as = {}" and "b \<in> set bs"
  shows "lookup h' b = lookup h b"
proof -
  have "b < length h" using assms(2,4) by (rule tramo_lt)
  moreover have "b \<notin> set as" using assms(3,4) by blast
  ultimately show ?thesis using assms(1) by (simp add: marco_def)
qed

lemma marco_tramo:
  assumes "marco h h' as" and "tramo h p bs q" and "set bs \<inter> set as = {}"
  shows "tramo h' p bs q"
proof -
  have "tramo h' p bs q = tramo h p bs q"
    by (rule tramo_cong) (rule marco_lookup [OF assms])
  then show ?thesis using assms(2) by simp
qed

lemma marco_datos:
  assumes "marco h h' as" and "tramo h p bs q" and "set bs \<inter> set as = {}"
  shows "datos h' bs = datos h bs"
  by (rule datos_cong) (rule marco_lookup [OF assms])

lemma bien_formada_distinct: "bien_formada h l as \<Longrightarrow> distinct as"
  unfolding bien_formada_def by (elim conjE) (rule cadena_distinct)

subsection \<open>push_back\<close>

lemma push_back_correcto:
  assumes "bien_formada h l as"
  shows "\<exists>h' l'. push_back v (h, l) = Some (h', l') \<and>
           bien_formada h' l' (as @ [length h]) \<and>
           datos h' (as @ [length h]) = datos h as @ [v] \<and>
           length h' = Suc (length h) \<and>
           marco h h' as"
proof (cases as rule: rev_cases)
  case Nil
  with assms show ?thesis
    by (simp add: bien_formada_def push_back_def alloc_def lookup_snoc datos_def marco_def)
next
  case (snoc bs c)
  with assms obtain r where pre: "tramo h (cabeza l) bs r" and ult: "tramo h r [c] None"
    and cola: "cola l = Some c" and n: "n_elems l = Suc (length bs)"
    by (auto simp: bien_formada_def tramo_append)
  from ult obtain cn where r: "r = Some c" and cn: "lookup h c = Some cn"
    and fin: "siguiente cn = None"
    by (auto split: option.splits)
  have cab: "cabeza l \<noteq> None"
    using pre r by (cases bs) auto
  have clt: "c < length h" using cn by (rule lookup_Some_lt)
  have "distinct as"
    using assms by (rule bien_formada_distinct)
  then have cnot: "c \<notin> set bs"
    using snoc by simp
  let ?nuevo = "length h"
  let ?h1 = "h @ [Some \<lparr>dato = v, siguiente = None\<rparr>]"
  let ?h2 = "?h1[c := Some (cn\<lparr>siguiente := Some ?nuevo\<rparr>)]"
  let ?l' = "l\<lparr>cola := Some ?nuevo, n_elems := n_elems l + 1\<rparr>"
  have pb: "push_back v (h, l) = Some (?h2, ?l')"
    using cab cola cn clt
    by (auto simp: push_back_def alloc_def lookup_snoc store_def)
  have same: "lookup ?h2 b = lookup h b" if "b \<in> set bs" for b
  proof -
    have "b < length h" using pre that by (rule tramo_lt)
    moreover have "b \<noteq> c" using cnot that by auto
    ultimately show ?thesis by (simp add: lookup_upd lookup_snoc)
  qed
  have "tramo ?h2 (cabeza l) bs r = tramo h (cabeza l) bs r"
    by (rule tramo_cong) (rule same)
  then have t1: "tramo ?h2 (cabeza l) bs (Some c)"
    using pre r by simp
  have t2: "tramo ?h2 (Some c) [c, ?nuevo] None"
    using clt by (simp add: lookup_upd lookup_snoc)
  have "cadena ?h2 (cabeza l) (bs @ [c, ?nuevo])"
    unfolding tramo_append using t1 t2 by (rule_tac x = "Some c" in exI) simp
  then have bf: "bien_formada ?h2 ?l' (as @ [?nuevo])"
    using n snoc by (simp add: bien_formada_def)
  have d1: "datos ?h2 bs = datos h bs"
    by (rule datos_cong) (rule same)
  have d2: "datos ?h2 [c, ?nuevo] = datos h [c] @ [v]"
    using cn clt by (simp add: datos_def lookup_upd lookup_snoc)
  have "datos ?h2 (bs @ [c, ?nuevo]) = datos h (bs @ [c]) @ [v]"
    using d1 d2 by (simp add: datos_def)
  then have da: "datos ?h2 (as @ [?nuevo]) = datos h as @ [v]"
    using snoc by simp
  have ma: "marco h ?h2 as"
    using snoc by (simp add: marco_def lookup_upd lookup_snoc)
  have len: "length ?h2 = Suc (length h)"
    by simp
  show ?thesis using pb bf da ma len by blast
qed

subsection \<open>sum\<close>

lemma sum_loop_correcto:
  "cadena h p as \<Longrightarrow> sum_loop h p s = Some (foldl (+) s (datos h as))"
proof (induction as arbitrary: p s)
  case Nil
  then show ?case by (subst sum_loop.simps) (simp add: datos_def)
next
  case (Cons a as)
  from Cons.prems obtain nd where p: "p = Some a" and nd: "lookup h a = Some nd"
    and tl: "cadena h (siguiente nd) as"
    by (auto split: option.splits)
  have "sum_loop h p s = sum_loop h (siguiente nd) (s + dato nd)"
    by (subst sum_loop.simps) (simp add: p nd)
  also have "\<dots> = Some (foldl (+) (s + dato nd) (datos h as))"
    using tl by (rule Cons.IH)
  finally show ?case by (simp add: datos_def nd)
qed

lemma sum_lista_correcto:
  assumes "bien_formada h l as"
  shows "sum_lista h l = Some (foldl (+) 0 (datos h as))"
proof (cases "cabeza l")
  case None
  with assms have "as = []" by (cases as) (auto simp: bien_formada_def)
  with None show ?thesis by (simp add: sum_lista_def datos_def)
next
  case (Some a)
  from assms have "cadena h (cabeza l) as" by (simp add: bien_formada_def)
  then have "sum_loop h (cabeza l) 0 = Some (foldl (+) 0 (datos h as))"
    by (rule sum_loop_correcto)
  with Some show ?thesis by (simp add: sum_lista_def)
qed

lemma foldl_plus_sum_list: "foldl (+) (s::'a::monoid_add) xs = s + sum_list xs"
  by (induction xs arbitrary: s) (simp_all add: add.assoc)

subsection \<open>clear\<close>

lemma clear_loop_correcto:
  "cadena h p as \<Longrightarrow>
     \<exists>h'. clear_loop h p = Some h' \<and> length h' = length h \<and>
          (\<forall>a \<in> set as. lookup h' a = None) \<and> marco h h' as"
proof (induction as arbitrary: h p)
  case Nil
  then show ?case by (subst clear_loop.simps) (simp add: marco_def)
next
  case (Cons a as)
  from Cons.prems obtain nd where p: "p = Some a" and nd: "lookup h a = Some nd"
    and tl: "cadena h (siguiente nd) as"
    by (auto split: option.splits)
  have alt: "a < length h" using nd by (rule lookup_Some_lt)
  have "distinct (a # as)" using Cons.prems by (rule cadena_distinct)
  then have anot: "a \<notin> set as" by simp
  let ?h1 = "h[a := None]"
  have "tramo ?h1 (siguiente nd) as None = tramo h (siguiente nd) as None"
  proof (rule tramo_cong)
    fix b assume "b \<in> set as"
    with anot have "b \<noteq> a" by auto
    then show "lookup ?h1 b = lookup h b" by (simp add: lookup_upd)
  qed
  with tl have "cadena ?h1 (siguiente nd) as" by simp
  from Cons.IH [OF this] obtain h' where cl: "clear_loop ?h1 (siguiente nd) = Some h'"
    and len: "length h' = length ?h1" and dead: "\<forall>b \<in> set as. lookup h' b = None"
    and ma: "marco ?h1 h' as"
    by blast
  have step: "clear_loop h p = clear_loop ?h1 (siguiente nd)"
    by (subst clear_loop.simps) (simp add: p nd delete_def)
  have "lookup h' a = lookup ?h1 a"
    using ma anot alt by (simp add: marco_def)
  then have adead: "lookup h' a = None"
    using alt by (simp add: lookup_upd)
  have "marco h h' (a # as)"
    unfolding marco_def
  proof (intro conjI allI impI)
    show "length h \<le> length h'" using len by simp
  next
    fix b assume b: "b < length h" "b \<notin> set (a # as)"
    then have "lookup h' b = lookup ?h1 b" using ma by (simp add: marco_def)
    also have "\<dots> = lookup h b" using b by (simp add: lookup_upd)
    finally show "lookup h' b = lookup h b" .
  qed
  then show ?case using step cl len dead adead by simp
qed

lemma clear_correcto:
  assumes "bien_formada h l as"
  shows "\<exists>h' l'. clear (h, l) = Some (h', l') \<and> bien_formada h' l' [] \<and>
           length h' = length h \<and> (\<forall>a \<in> set as. lookup h' a = None) \<and> marco h h' as"
proof -
  from assms have "cadena h (cabeza l) as" by (simp add: bien_formada_def)
  from clear_loop_correcto [OF this] obtain h' where cl: "clear_loop h (cabeza l) = Some h'"
    and rest: "length h' = length h" "\<forall>a \<in> set as. lookup h' a = None" "marco h h' as"
    by blast
  let ?l' = "l\<lparr>cabeza := None, cola := None, n_elems := 0\<rparr>"
  have "clear (h, l) = Some (h', ?l')" using cl by (simp add: clear_def)
  moreover have "bien_formada h' ?l' []" by (simp add: bien_formada_def)
  ultimately show ?thesis using rest by blast
qed

subsection \<open>pop_min: the scan\<close>

lemma datos_append: "datos h (as @ bs) = datos h as @ datos h bs"
  by (simp add: datos_def)

lemma datos_Cons: "lookup h a = Some nd \<Longrightarrow> datos h (a # as) = dato nd # datos h as"
  by (simp add: datos_def)

lemma pop_min_loop_correcto:
  fixes h :: "'a::linorder Nodo heap"
  assumes "cadena h cur rest" and "lookup h m = Some mn"
    and "\<forall>x \<in> set (datos h A1). dato mn < x" and "\<forall>x \<in> set (datos h A2). dato mn \<le> x"
    and "prev = Some (last (m # A2))"
    and "minPrev = (if A1 = [] then None else Some (last A1))"
  shows "\<exists>B1 m' B2 mn'.
           pop_min_loop h minPrev m prev cur = Some (if B1 = [] then None else Some (last B1), m') \<and>
           A1 @ m # A2 @ rest = B1 @ m' # B2 \<and> lookup h m' = Some mn' \<and>
           (\<forall>x \<in> set (datos h B1). dato mn' < x) \<and> (\<forall>x \<in> set (datos h B2). dato mn' \<le> x)"
  using assms
proof (induction rest arbitrary: A1 m mn A2 prev minPrev cur)
  case Nil
  then have "pop_min_loop h minPrev m prev cur = Some (if A1 = [] then None else Some (last A1), m)"
    by (subst pop_min_loop.simps) simp
  with Nil show ?case by blast
next
  case (Cons c rest)
  from Cons.prems(1) obtain cn where cur: "cur = Some c" and cn: "lookup h c = Some cn"
    and tl: "cadena h (siguiente cn) rest"
    by (auto split: option.splits)
  note mn = \<open>lookup h m = Some mn\<close>
  show ?case
  proof (cases "dato cn < dato mn")
    case True
    have step: "pop_min_loop h minPrev m prev cur = pop_min_loop h prev c (Some c) (siguiente cn)"
      by (subst pop_min_loop.simps) (simp add: cur cn mn True)
    have d: "datos h (A1 @ m # A2) = datos h A1 @ dato mn # datos h A2"
      using mn by (simp add: datos_def)
    have a1: "\<forall>x \<in> set (datos h (A1 @ m # A2)). dato cn < x"
      unfolding d using Cons.prems(3,4) True by auto
    have a2: "\<forall>x \<in> set (datos h []). dato cn \<le> x"
      by (simp add: datos_def)
    have p1: "Some c = Some (last (c # []))" by simp
    have p2: "prev = (if A1 @ m # A2 = [] then None else Some (last (A1 @ m # A2)))"
      using Cons.prems(5) by simp
    from Cons.IH [OF tl cn a1 a2 p1 p2]
    obtain B1 m' B2 mn' where
      "pop_min_loop h prev c (Some c) (siguiente cn) = Some (if B1 = [] then None else Some (last B1), m')"
      "(A1 @ m # A2) @ c # [] @ rest = B1 @ m' # B2" "lookup h m' = Some mn'"
      "\<forall>x \<in> set (datos h B1). dato mn' < x" "\<forall>x \<in> set (datos h B2). dato mn' \<le> x"
      by blast
    then show ?thesis unfolding step by (intro exI [of _ B1] exI [of _ m'] exI [of _ B2] exI [of _ mn']) simp
  next
    case False
    have step: "pop_min_loop h minPrev m prev cur = pop_min_loop h minPrev m (Some c) (siguiente cn)"
      by (subst pop_min_loop.simps) (simp add: cur cn mn False)
    have d: "datos h (A2 @ [c]) = datos h A2 @ [dato cn]"
      using cn by (simp add: datos_def)
    have a2: "\<forall>x \<in> set (datos h (A2 @ [c])). dato mn \<le> x"
      unfolding d using Cons.prems(4) False by auto
    have p1: "Some c = Some (last (m # A2 @ [c]))" by simp
    from Cons.IH [OF tl mn Cons.prems(3) a2 p1 Cons.prems(6)]
    obtain B1 m' B2 mn' where
      "pop_min_loop h minPrev m (Some c) (siguiente cn) = Some (if B1 = [] then None else Some (last B1), m')"
      "A1 @ m # (A2 @ [c]) @ rest = B1 @ m' # B2" "lookup h m' = Some mn'"
      "\<forall>x \<in> set (datos h B1). dato mn' < x" "\<forall>x \<in> set (datos h B2). dato mn' \<le> x"
      by blast
    then show ?thesis unfolding step by (intro exI [of _ B1] exI [of _ m'] exI [of _ B2] exI [of _ mn']) simp
  qed
qed

lemma pop_min_scan:
  fixes h :: "'a::linorder Nodo heap"
  assumes "cadena h (Some c0) as"
  shows "\<exists>B1 m B2 mn.
           pop_min_loop h None c0 None (Some c0) = Some (if B1 = [] then None else Some (last B1), m) \<and>
           as = B1 @ m # B2 \<and> lookup h m = Some mn \<and>
           (\<forall>x \<in> set (datos h B1). dato mn < x) \<and> (\<forall>x \<in> set (datos h B2). dato mn \<le> x)"
proof -
  from assms obtain rest nd where as: "as = c0 # rest" and nd: "lookup h c0 = Some nd"
    and tl: "cadena h (siguiente nd) rest"
    by (cases as) (auto split: option.splits)
  have step: "pop_min_loop h None c0 None (Some c0) = pop_min_loop h None c0 (Some c0) (siguiente nd)"
    by (subst pop_min_loop.simps) (simp add: nd)
  have e: "\<forall>x \<in> set (datos h []). dato nd < x" "\<forall>x \<in> set (datos h []). dato nd \<le> x"
    by (simp_all add: datos_def)
  have "Some c0 = Some (last (c0 # []))" "None = (if ([]::addr list) = [] then None else Some (last []))"
    by simp_all
  from pop_min_loop_correcto [OF tl nd e this]
  show ?thesis unfolding step as by simp
qed


subsection \<open>pop_min: unlinking the node\<close>

lemma pop_min_split:
  fixes h :: "'a::linorder Nodo heap"
  assumes bf: "bien_formada h l (B1 @ m # B2)" and mn: "lookup h m = Some mn"
    and scan: "pop_min_loop h None c0 None (Some c0) = Some (if B1 = [] then None else Some (last B1), m)"
    and cab: "cabeza l = Some c0"
  shows "\<exists>h' l'. pop_min outMin (h, l) = Some ((h', l'), True, dato mn) \<and>
           bien_formada h' l' (B1 @ B2) \<and> datos h' (B1 @ B2) = datos h B1 @ datos h B2 \<and>
           lookup h' m = None \<and> length h' = length h \<and> marco h h' (B1 @ m # B2)"
proof -
  have dist: "distinct (B1 @ m # B2)" using bf by (rule bien_formada_distinct)
  from bf have ch: "cadena h (cabeza l) (B1 @ m # B2)"
    and cola: "cola l = Some (last (m # B2))" and n: "n_elems l = Suc (length B1 + length B2)"
    by (simp_all add: bien_formada_def)
  from ch obtain r where pre: "tramo h (cabeza l) B1 r" and post: "cadena h r (m # B2)"
    by (auto simp: tramo_append)
  from post mn have r: "r = Some m" and tl: "cadena h (siguiente mn) B2"
    by simp_all
  have mlt: "m < length h" using mn by (rule lookup_Some_lt)
  have mB2: "m \<notin> set B2" and mB1: "m \<notin> set B1" using dist by auto
  have cola_m: "cola l = Some m \<longleftrightarrow> B2 = []"
  proof
    assume "cola l = Some m"
    with cola have "last (m # B2) = m" by simp
    show "B2 = []"
    proof (rule ccontr)
      assume "B2 \<noteq> []"
      then have "last (m # B2) \<in> set B2" by simp
      with \<open>last (m # B2) = m\<close> mB2 show False by simp
    qed
  next
    assume "B2 = []" with cola show "cola l = Some m" by simp
  qed
  show ?thesis
  proof (cases B1 rule: rev_cases)
    case Nil
    let ?h2 = "h[m := None]"
    let ?l' = "l\<lparr>cabeza := siguiente mn,
                 cola := (if cola l = Some m then siguiente mn else cola l),
                 n_elems := n_elems l - 1\<rparr>"
    have pm: "pop_min outMin (h, l) = Some ((?h2, ?l'), True, dato mn)"
      using scan cab mn Nil n by (simp add: pop_min_def delete_def)
    have same: "lookup ?h2 b = lookup h b" if "b \<in> set B2" for b
      using that mB2 by (auto simp: lookup_upd)
    have "tramo ?h2 (siguiente mn) B2 None = tramo h (siguiente mn) B2 None"
      by (rule tramo_cong) (rule same)
    with tl have ch': "cadena ?h2 (siguiente mn) B2" by simp
    have cola': "cola ?l' = (if B2 = [] then None else Some (last B2))"
    proof (cases "B2 = []")
      case True
      with tl have "siguiente mn = None" by simp
      with True cola_m show ?thesis by simp
    next
      case False
      with cola_m cola show ?thesis by simp
    qed
    have bf': "bien_formada ?h2 ?l' (B1 @ B2)"
      using ch' cola' n Nil by (simp add: bien_formada_def)
    have da: "datos ?h2 (B1 @ B2) = datos h B1 @ datos h B2"
      using Nil datos_cong [of B2 ?h2 h, OF same] by (simp add: datos_def)
    have dead: "lookup ?h2 m = None" using mlt by (simp add: lookup_upd)
    have ma: "marco h ?h2 (B1 @ m # B2)" by (simp add: marco_def lookup_upd)
    have len: "length ?h2 = length h" by simp
    show ?thesis using pm bf' da dead ma len by blast
  next
    case (snoc B1' p)
    from pre r snoc obtain r' where pre': "tramo h (cabeza l) B1' r'" and one: "tramo h r' [p] (Some m)"
      by (auto simp: tramo_append)
    from one obtain pn where r': "r' = Some p" and pn: "lookup h p = Some pn"
      and nx: "siguiente pn = Some m"
      by (auto split: option.splits)
    have plt: "p < length h" using pn by (rule lookup_Some_lt)
    have pm_ne: "p \<noteq> m" and pB1: "p \<notin> set B1'" and pB2: "p \<notin> set B2" and mB1': "m \<notin> set B1'"
      using dist snoc by auto
    let ?h1 = "h[p := Some (pn\<lparr>siguiente := siguiente mn\<rparr>)]"
    let ?h2 = "?h1[m := None]"
    let ?l' = "l\<lparr>cola := (if cola l = Some m then Some p else cola l), n_elems := n_elems l - 1\<rparr>"
    have l1: "lookup ?h1 m = Some mn" using pm_ne mn by (simp add: lookup_upd)
    have pm: "pop_min outMin (h, l) = Some ((?h2, ?l'), True, dato mn)"
      using scan cab mn snoc pn l1 n by (simp add: pop_min_def delete_def store_def)
    have same: "lookup ?h2 b = lookup h b" if "b \<noteq> p" "b \<noteq> m" for b
      using that by (simp add: lookup_upd)
    have same1: "lookup ?h2 b = lookup h b" if "b \<in> set B1'" for b
      using that pB1 mB1' by (intro same) auto
    have same2: "lookup ?h2 b = lookup h b" if "b \<in> set B2" for b
      using that pB2 mB2 by (intro same) auto
    have "tramo ?h2 (cabeza l) B1' r' = tramo h (cabeza l) B1' r'"
      by (rule tramo_cong) (rule same1)
    with pre' r' have t1: "tramo ?h2 (cabeza l) B1' (Some p)" by simp
    have lp: "lookup ?h2 p = Some (pn\<lparr>siguiente := siguiente mn\<rparr>)"
      using plt pm_ne by (simp add: lookup_upd)
    then have t2: "tramo ?h2 (Some p) [p] (siguiente mn)" by simp
    have "tramo ?h2 (siguiente mn) B2 None = tramo h (siguiente mn) B2 None"
      by (rule tramo_cong) (rule same2)
    with tl have t3: "cadena ?h2 (siguiente mn) B2" by simp
    have "cadena ?h2 (cabeza l) (B1' @ [p] @ B2)"
      unfolding tramo_append using t1 t2 t3 by blast
    then have ch': "cadena ?h2 (cabeza l) (B1 @ B2)" using snoc by simp
    have cola': "cola ?l' = Some (last (B1 @ B2))"
    proof (cases "B2 = []")
      case True
      with cola_m snoc show ?thesis by simp
    next
      case False
      with cola_m cola show ?thesis by simp
    qed
    have bf': "bien_formada ?h2 ?l' (B1 @ B2)"
      using ch' cola' n snoc by (simp add: bien_formada_def)
    have d1: "datos ?h2 B1' = datos h B1'" by (rule datos_cong) (rule same1)
    have d2: "datos ?h2 B2 = datos h B2" by (rule datos_cong) (rule same2)
    have d3: "datos ?h2 [p] = datos h [p]" using lp pn by (simp add: datos_def)
    have da: "datos ?h2 (B1 @ B2) = datos h B1 @ datos h B2"
      unfolding snoc datos_append d1 d2 d3 by simp
    have dead: "lookup ?h2 m = None" using mlt by (simp add: lookup_upd)
    have ma: "marco h ?h2 (B1 @ m # B2)" using snoc by (simp add: marco_def lookup_upd)
    have len: "length ?h2 = length h" by simp
    show ?thesis using pm bf' da dead ma len by blast
  qed
qed

lemma pop_min_vacia:
  assumes "bien_formada h l []"
  shows "pop_min outMin (h, l) = Some ((h, l), False, outMin)"
  using assms by (simp add: bien_formada_def pop_min_def)

lemma pop_min_no_vacia:
  fixes h :: "'a::linorder Nodo heap"
  assumes bf: "bien_formada h l as" and ne: "as \<noteq> []"
  shows "\<exists>h' l' B1 m B2 x.
           pop_min outMin (h, l) = Some ((h', l'), True, x) \<and> as = B1 @ m # B2 \<and>
           datos h [m] = [x] \<and>
           (\<forall>y \<in> set (datos h B1). x < y) \<and> (\<forall>y \<in> set (datos h B2). x \<le> y) \<and>
           bien_formada h' l' (B1 @ B2) \<and> datos h' (B1 @ B2) = datos h B1 @ datos h B2 \<and>
           lookup h' m = None \<and> length h' = length h \<and> marco h h' as"
proof -
  from bf have ch: "cadena h (cabeza l) as" by (simp add: bien_formada_def)
  with ne obtain c0 where cab: "cabeza l = Some c0" by (cases as) auto
  from pop_min_scan [of h c0 as] ch cab obtain B1 m B2 mn where
    scan: "pop_min_loop h None c0 None (Some c0) = Some (if B1 = [] then None else Some (last B1), m)"
    and as: "as = B1 @ m # B2" and mn: "lookup h m = Some mn"
    and lo: "\<forall>x \<in> set (datos h B1). dato mn < x" and hi: "\<forall>x \<in> set (datos h B2). dato mn \<le> x"
    by auto
  from pop_min_split [OF bf [unfolded as] mn scan cab, of outMin]
  obtain h' l' where "pop_min outMin (h, l) = Some ((h', l'), True, dato mn)"
    "bien_formada h' l' (B1 @ B2)" "datos h' (B1 @ B2) = datos h B1 @ datos h B2"
    "lookup h' m = None" "length h' = length h" "marco h h' (B1 @ m # B2)"
    by blast
  moreover have "datos h [m] = [dato mn]" using mn by (simp add: datos_def)
  ultimately show ?thesis using as lo hi by blast
qed

subsection \<open>pop_min: the abstract view\<close>

lemma bien_formada_size: "bien_formada h l as \<Longrightarrow> size_lista l = length as"
  by (simp add: bien_formada_def size_lista_def)

lemma bien_formada_length_datos: "length (datos h as) = length as"
  by (simp add: datos_def)

lemma pop_min_minimo:
  fixes h :: "'a::linorder Nodo heap"
  assumes bf: "bien_formada h l as" and ne: "as \<noteq> []"
  shows "\<exists>h' l' B1 m B2.
           pop_min outMin (h, l) = Some ((h', l'), True, Min (set (datos h as))) \<and>
           as = B1 @ m # B2 \<and>
           datos h [m] = [Min (set (datos h as))] \<and>
           (\<forall>y \<in> set (datos h B1). Min (set (datos h as)) < y) \<and>
           bien_formada h' l' (B1 @ B2) \<and>
           datos h' (B1 @ B2) = remove1 (Min (set (datos h as))) (datos h as) \<and>
           lookup h' m = None \<and> length h' = length h \<and> marco h h' as"
proof -
  from pop_min_no_vacia [OF bf ne, of outMin] obtain h' l' B1 m B2 x where
    pm: "pop_min outMin (h, l) = Some ((h', l'), True, x)" and as: "as = B1 @ m # B2"
    and x: "datos h [m] = [x]"
    and lo: "\<forall>y \<in> set (datos h B1). x < y" and hi: "\<forall>y \<in> set (datos h B2). x \<le> y"
    and bf': "bien_formada h' l' (B1 @ B2)"
    and da: "datos h' (B1 @ B2) = datos h B1 @ datos h B2"
    and rest: "lookup h' m = None" "length h' = length h" "marco h h' as"
    by blast
  have d: "datos h as = datos h B1 @ x # datos h B2"
    using x unfolding as by (simp add: datos_def)
  have "Min (set (datos h as)) = x"
  proof (rule Min_eqI)
    show "finite (set (datos h as))" by simp
    show "x \<in> set (datos h as)" unfolding d by simp
    fix y assume "y \<in> set (datos h as)"
    then show "x \<le> y" unfolding d using lo hi by auto
  qed
  moreover have "x \<notin> set (datos h B1)" using lo by auto
  then have "remove1 x (datos h as) = datos h B1 @ datos h B2"
    unfolding d by (simp add: remove1_append)
  ultimately show ?thesis using pm as x lo bf' da rest by auto
qed

text \<open>
  C1. On a well-formed list without nodes, \<^verbatim>\<open>pop_min\<close> returns false and changes neither
  the store, the list object nor the output parameter; the size is 0. On a well-formed list
  with nodes it returns true and the least value \<open>Min\<close> of the stored values in the output
  parameter; the node \<open>m\<close> it deletes holds that value and every node before it holds a
  strictly greater one, so it is the first occurrence; the remaining nodes \<open>B1 @ B2\<close> form a
  well-formed list again (head, tail and count rebound), holding the old values with the
  first occurrence of the minimum removed; the size has gone down by exactly one.
\<close>

theorem pop_min_removes_first_minimum:
  fixes h :: "'a::linorder Nodo heap"
  assumes "bien_formada h l as"
  shows "(as = [] \<longrightarrow>
            pop_min outMin (h, l) = Some ((h, l), False, outMin) \<and> size_lista l = 0) \<and>
         (as \<noteq> [] \<longrightarrow>
            (\<exists>h' l' B1 m B2.
               pop_min outMin (h, l) = Some ((h', l'), True, Min (set (datos h as))) \<and>
               as = B1 @ m # B2 \<and>
               datos h [m] = [Min (set (datos h as))] \<and>
               (\<forall>y \<in> set (datos h B1). Min (set (datos h as)) < y) \<and>
               lookup h' m = None \<and>
               bien_formada h' l' (B1 @ B2) \<and>
               datos h' (B1 @ B2) = remove1 (Min (set (datos h as))) (datos h as) \<and>
               Suc (size_lista l') = size_lista l))"
proof (intro conjI impI)
  assume "as = []"
  with assms show "pop_min outMin (h, l) = Some ((h, l), False, outMin)"
    by (simp add: pop_min_vacia)
  from assms \<open>as = []\<close> show "size_lista l = 0"
    by (simp add: bien_formada_size)
next
  assume ne: "as \<noteq> []"
  from pop_min_minimo [OF assms ne, of outMin] obtain h' l' B1 m B2 where
    r: "pop_min outMin (h, l) = Some ((h', l'), True, Min (set (datos h as)))"
      "as = B1 @ m # B2" "datos h [m] = [Min (set (datos h as))]"
      "\<forall>y \<in> set (datos h B1). Min (set (datos h as)) < y"
      "bien_formada h' l' (B1 @ B2)"
      "datos h' (B1 @ B2) = remove1 (Min (set (datos h as))) (datos h as)"
      "lookup h' m = None"
    by blast
  have "Suc (size_lista l') = size_lista l"
    using bien_formada_size [OF assms] bien_formada_size [OF r(5)] r(2) by simp
  with r show "\<exists>h' l' B1 m B2.
               pop_min outMin (h, l) = Some ((h', l'), True, Min (set (datos h as))) \<and>
               as = B1 @ m # B2 \<and>
               datos h [m] = [Min (set (datos h as))] \<and>
               (\<forall>y \<in> set (datos h B1). Min (set (datos h as)) < y) \<and>
               lookup h' m = None \<and>
               bien_formada h' l' (B1 @ B2) \<and>
               datos h' (B1 @ B2) = remove1 (Min (set (datos h as))) (datos h as) \<and>
               Suc (size_lista l') = size_lista l"
    by blast
qed

theorem pop_min_removes_first_minimum_witness:
  "bien_formada
     [Some \<lparr>dato = 3::int, siguiente = Some 1\<rparr>, Some \<lparr>dato = 1, siguiente = Some 2\<rparr>,
      Some \<lparr>dato = 1, siguiente = None\<rparr>]
     \<lparr>cabeza = Some 0, cola = Some 2, n_elems = 3\<rparr> [0, 1, 2] \<and>
   (\<exists>h' l' B1 m B2.
      pop_min 0
        ([Some \<lparr>dato = 3::int, siguiente = Some 1\<rparr>, Some \<lparr>dato = 1, siguiente = Some 2\<rparr>,
          Some \<lparr>dato = 1, siguiente = None\<rparr>],
         \<lparr>cabeza = Some 0, cola = Some 2, n_elems = 3\<rparr>) = Some ((h', l'), True, 1) \<and>
      [0, 1, 2] = B1 @ m # B2 \<and> bien_formada h' l' (B1 @ B2) \<and> datos h' (B1 @ B2) = [3, 1] \<and>
      size_lista l' = 2)"
proof -
  let ?h = "[Some \<lparr>dato = 3::int, siguiente = Some 1\<rparr>, Some \<lparr>dato = 1, siguiente = Some 2\<rparr>,
      Some \<lparr>dato = 1, siguiente = None\<rparr>]"
  let ?l = "\<lparr>cabeza = Some 0, cola = Some 2, n_elems = 3\<rparr>"
  have bf: "bien_formada ?h ?l [0, 1, 2]"
    by (simp add: bien_formada_def lookup_def)
  have d: "datos ?h [0, 1, 2] = [3, 1, 1]"
    by (simp add: datos_def lookup_def)
  have sz: "size_lista ?l = 3" by (simp add: size_lista_def)
  have "Min (set [3, 1, 1::int]) = 1" by simp
  with pop_min_removes_first_minimum [OF bf, of 0] obtain h' l' B1 m B2 where
    "pop_min 0 (?h, ?l) = Some ((h', l'), True, 1)" "[0, 1, 2] = B1 @ m # B2"
    "bien_formada h' l' (B1 @ B2)" "datos h' (B1 @ B2) = [3, 1]" "size_lista l' = 2"
    unfolding d sz by auto
  with bf show ?thesis by blast
qed

section \<open>Sequences of operations\<close>

lemma bien_formada_vacia: "bien_formada h ListaSensor_vacia []"
  by (simp add: bien_formada_def ListaSensor_vacia_def)

lemma aplicar_correcto:
  fixes h :: "'a::linorder Nodo heap"
  assumes bf: "bien_formada h l as"
  shows "\<exists>h' l' ok as'.
           aplicar op (h, l) = Some ((h', l'), ok) \<and> bien_formada h' l' as' \<and>
           marco h h' as \<and> (\<forall>a \<in> set as'. a \<in> set as \<or> length h \<le> a) \<and>
           int (length as') =
             (case op of PushBack _ \<Rightarrow> int (length as) + 1
              | PopMin _ \<Rightarrow> int (length as) - (if ok then 1 else 0)
              | Clear \<Rightarrow> 0) \<and>
           (case op of PopMin _ \<Rightarrow> True | _ \<Rightarrow> ok)"
proof (cases op)
  case (PushBack v)
  from push_back_correcto [OF bf, of v] obtain h' l' where
    "push_back v (h, l) = Some (h', l')" "bien_formada h' l' (as @ [length h])" "marco h h' as"
    by blast
  then show ?thesis using PushBack
    by (intro exI [of _ h'] exI [of _ l'] exI [of _ True] exI [of _ "as @ [length h]"]) auto
next
  case (PopMin outMin)
  show ?thesis
  proof (cases "as = []")
    case True
    with bf have "pop_min outMin (h, l) = Some ((h, l), False, outMin)"
      by (simp add: pop_min_vacia)
    then show ?thesis using PopMin bf True
      by (intro exI [of _ h] exI [of _ l] exI [of _ False] exI [of _ "[]"]) (simp add: marco_refl)
  next
    case False
    from pop_min_no_vacia [OF bf False, of outMin] obtain h' l' B1 m B2 x where
      "pop_min outMin (h, l) = Some ((h', l'), True, x)" "as = B1 @ m # B2"
      "bien_formada h' l' (B1 @ B2)" "marco h h' as"
      by blast
    then show ?thesis using PopMin
      by (intro exI [of _ h'] exI [of _ l'] exI [of _ True] exI [of _ "B1 @ B2"]) auto
  qed
next
  case Clear
  from clear_correcto [OF bf] obtain h' l' where
    "clear (h, l) = Some (h', l')" "bien_formada h' l' []" "marco h h' as"
    by blast
  then show ?thesis using Clear
    by (intro exI [of _ h'] exI [of _ l'] exI [of _ True] exI [of _ "[]"]) auto
qed

lemma ejecutar_snoc:
  "ejecutar (ops @ [op]) s =
     (case ejecutar ops s of
        None \<Rightarrow> None
      | Some (s1, oks) \<Rightarrow>
          (case aplicar op s1 of None \<Rightarrow> None | Some (s2, ok) \<Rightarrow> Some (s2, oks @ [ok])))"
  by (induction ops arbitrary: s) (auto split: option.splits)

lemma size_desde_clear_snoc:
  "size_desde_clear (tr @ [x]) =
     (if es_clear x then 0
      else size_desde_clear tr + (if es_push x then 1 else 0) - (if es_pop_ok x then 1 else 0))"
proof (cases "es_clear x")
  case True
  then have "desde_ultimo_clear (tr @ [x]) = []"
    by (simp add: desde_ultimo_clear_def)
  with True show ?thesis by (simp add: size_desde_clear_def)
next
  case False
  then have "desde_ultimo_clear (tr @ [x]) = desde_ultimo_clear tr @ [x]"
    by (simp add: desde_ultimo_clear_def)
  with False show ?thesis by (simp add: size_desde_clear_def)
qed

lemma ejecutar_size:
  fixes h :: "'a::linorder Nodo heap"
  shows "\<exists>h' l' as' oks.
           ejecutar ops (h, ListaSensor_vacia) = Some ((h', l'), oks) \<and> bien_formada h' l' as' \<and>
           length oks = length ops \<and> int (length as') = size_desde_clear (zip ops oks)"
proof (induction ops rule: rev_induct)
  case Nil
  have "ejecutar [] (h, ListaSensor_vacia) = Some ((h, ListaSensor_vacia), []) \<and>
        bien_formada h ListaSensor_vacia [] \<and> length ([]::bool list) = length ([]::'a operacion list) \<and>
        int (length ([]::addr list)) = size_desde_clear (zip ([]::'a operacion list) [])"
    by (simp add: bien_formada_vacia size_desde_clear_def desde_ultimo_clear_def)
  then show ?case by blast
next
  case (snoc op ops)
  then obtain h1 l1 as1 oks where
    ej: "ejecutar ops (h, ListaSensor_vacia) = Some ((h1, l1), oks)"
    and bf: "bien_formada h1 l1 as1" and len: "length oks = length ops"
    and sz: "int (length as1) = size_desde_clear (zip ops oks)"
    by blast
  from aplicar_correcto [OF bf, of op] obtain h2 l2 ok as2 where
    ap: "aplicar op (h1, l1) = Some ((h2, l2), ok)" and bf2: "bien_formada h2 l2 as2"
    and n2: "int (length as2) =
             (case op of PushBack _ \<Rightarrow> int (length as1) + 1
              | PopMin _ \<Rightarrow> int (length as1) - (if ok then 1 else 0)
              | Clear \<Rightarrow> 0)"
    and ok: "(case op of PopMin _ \<Rightarrow> True | _ \<Rightarrow> ok)"
    by blast
  have e2: "ejecutar (ops @ [op]) (h, ListaSensor_vacia) = Some ((h2, l2), oks @ [ok])"
    by (simp add: ejecutar_snoc ej ap)
  have z: "zip (ops @ [op]) (oks @ [ok]) = zip ops oks @ [(op, ok)]"
    using len by simp
  have "int (length as2) = size_desde_clear (zip (ops @ [op]) (oks @ [ok]))"
    unfolding z size_desde_clear_snoc using n2 ok sz
    by (cases op) (simp_all add: es_clear_def es_push_def es_pop_ok_def)
  with e2 bf2 len show ?case
    by (intro exI [of _ h2] exI [of _ l2] exI [of _ as2] exI [of _ "oks @ [ok]"]) simp
qed

text \<open>
  C8, as amended. Whatever calls are made on a list since its construction, every call
  returns, and the size is the number of appends made after the last \<^verbatim>\<open>clear\<close> (after
  construction when there was none) minus the number of successful \<^verbatim>\<open>pop_min\<close> calls made
  after it.
\<close>

theorem size_counts_calls_since_last_clear:
  fixes h :: "'a::linorder Nodo heap"
  shows "\<exists>s' oks.
           ejecutar ops (h, ListaSensor_vacia) = Some (s', oks) \<and> length oks = length ops \<and>
           int (size_lista (snd s')) = size_desde_clear (zip ops oks)"
proof -
  from ejecutar_size [of ops h] obtain h' l' as' oks where
    "ejecutar ops (h, ListaSensor_vacia) = Some ((h', l'), oks)" "bien_formada h' l' as'"
    "length oks = length ops" "int (length as') = size_desde_clear (zip ops oks)"
    by blast
  then show ?thesis
    by (intro exI [of _ "(h', l')"] exI [of _ oks]) (simp add: bien_formada_size)
qed

text \<open>
  C8, as stated, fails: after two appends and one \<^verbatim>\<open>clear\<close> the size is 0, while appends
  minus successful \<^verbatim>\<open>popMin\<close>/\<^verbatim>\<open>clear\<close> calls is 1.
\<close>

theorem size_not_appends_minus_removals:
  "ejecutar [PushBack (1::int), PushBack 2, Clear] ([], ListaSensor_vacia) =
     Some (([None, None], ListaSensor_vacia), [True, True, True]) \<and>
   int (size_lista ListaSensor_vacia) = 0 \<and>
   size_segun_spec (zip [PushBack (1::int), PushBack 2, Clear] [True, True, True]) = 1"
  by (simp add: push_back_def alloc_def store_def lookup_def clear_def clear_loop.simps delete_def
      ListaSensor_vacia_def size_lista_def size_segun_spec_def es_push_def es_pop_ok_def
      es_clear_def)

section \<open>Temperature sensors\<close>

lemma sum_lista_real:
  fixes h :: "cfloat Nodo heap"
  assumes "bien_formada h l as"
  shows "sum_lista h l = Some (sum_list (datos h as))"
  using sum_lista_correcto [OF assms] by (simp add: foldl_plus_sum_list)

lemma promedio_T_correcto:
  assumes "bien_formada h l as"
  shows "promedio_T h l = Some (media (datos h as))"
  using assms sum_lista_real [OF assms]
  by (auto simp: promedio_T_def media_def bien_formada_size datos_def)


lemma procesarLectura_T_no_vacia:
  assumes bf: "bien_formada h (historial s) as" and ne: "as \<noteq> []"
  shows "\<exists>h' l' B1 m B2.
           procesarLectura_T (h, s) =
             Some ((h', s\<lparr>historial := l'\<rparr>),
                   MinimaEliminada (Min (set (datos h as)))
                     (media (remove1 (Min (set (datos h as))) (datos h as)))) \<and>
           as = B1 @ m # B2 \<and> datos h [m] = [Min (set (datos h as))] \<and>
           (\<forall>y \<in> set (datos h B1). Min (set (datos h as)) < y) \<and>
           bien_formada h' l' (B1 @ B2) \<and>
           datos h' (B1 @ B2) = remove1 (Min (set (datos h as))) (datos h as) \<and>
           lookup h' m = None"
proof -
  from pop_min_minimo [OF bf ne, of 0] obtain h' l' B1 m B2 where
    pm: "pop_min 0 (h, historial s) = Some ((h', l'), True, Min (set (datos h as)))"
    and r: "as = B1 @ m # B2" "datos h [m] = [Min (set (datos h as))]"
      "\<forall>y \<in> set (datos h B1). Min (set (datos h as)) < y"
    and bf': "bien_formada h' l' (B1 @ B2)"
    and da: "datos h' (B1 @ B2) = remove1 (Min (set (datos h as))) (datos h as)"
    and dead: "lookup h' m = None"
    by blast
  have sz: "size_lista (historial s) \<noteq> 0"
    using bien_formada_size [OF bf] ne by simp
  have pr: "promedio_T h' l' = Some (media (remove1 (Min (set (datos h as))) (datos h as)))"
    using promedio_T_correcto [OF bf'] da by simp
  have "procesarLectura_T (h, s) =
          Some ((h', s\<lparr>historial := l'\<rparr>),
                MinimaEliminada (Min (set (datos h as)))
                  (media (remove1 (Min (set (datos h as))) (datos h as))))"
    using sz pm pr by (simp add: procesarLectura_T_def)
  with r bf' da dead show ?thesis by blast
qed



text \<open>
  C10. In \<^verbatim>\<open>SensorTemperatura::procesarLectura\<close>, once the guard has found the size of a
  well-formed history to be positive, \<^verbatim>\<open>pop_min\<close> returns true, and the call prints the
  report of the remove-then-average branch, never that of the fallback branch.
\<close>

theorem pop_min_true_under_size_guard:
  assumes "bien_formada h (historial s) as" and "size_lista (historial s) > 0"
  shows "(\<exists>st' x. pop_min outMin (h, historial s) = Some (st', True, x)) \<and>
         (\<exists>st' x p. procesarLectura_T (h, s) = Some (st', MinimaEliminada x p))"
proof -
  have ne: "as \<noteq> []" using assms bien_formada_size [OF assms(1)] by auto
  from pop_min_minimo [OF assms(1) ne, of outMin]
  have "\<exists>st' x. pop_min outMin (h, historial s) = Some (st', True, x)" by blast
  moreover from procesarLectura_T_no_vacia [OF assms(1) ne]
  have "\<exists>st' x p. procesarLectura_T (h, s) = Some (st', MinimaEliminada x p)" by blast
  ultimately show ?thesis by blast
qed

theorem pop_min_true_under_size_guard_witness:
  "bien_formada [Some \<lparr>dato = 5::real, siguiente = None\<rparr>]
     (historial \<lparr>clase = Temperatura, nombre = nombre_inicial ''T-001'',
                 historial = \<lparr>cabeza = Some 0, cola = Some 0, n_elems = 1\<rparr>\<rparr>) [0] \<and>
   size_lista (historial \<lparr>clase = Temperatura, nombre = nombre_inicial ''T-001'',
                 historial = \<lparr>cabeza = Some 0, cola = Some 0, n_elems = 1\<rparr>\<rparr>) > 0 \<and>
   (\<exists>st' x p. procesarLectura_T ([Some \<lparr>dato = 5::real, siguiente = None\<rparr>],
      \<lparr>clase = Temperatura, nombre = nombre_inicial ''T-001'',
       historial = \<lparr>cabeza = Some 0, cola = Some 0, n_elems = 1\<rparr>\<rparr>) = Some (st', MinimaEliminada x p))"
proof -
  let ?h = "[Some \<lparr>dato = 5::real, siguiente = None\<rparr>]"
  let ?s = "\<lparr>clase = Temperatura, nombre = nombre_inicial ''T-001'',
       historial = \<lparr>cabeza = Some 0, cola = Some 0, n_elems = 1\<rparr>\<rparr>"
  have bf: "bien_formada ?h (historial ?s) [0]"
    by (simp add: bien_formada_def lookup_def)
  have sz: "size_lista (historial ?s) > 0"
    by (simp add: size_lista_def)
  from pop_min_true_under_size_guard [OF bf sz, of 0] bf sz show ?thesis by blast
qed

subsection \<open>The scanners on the texts of the scenarios\<close>







section \<open>Pressure sensors\<close>











section \<open>Feeding a text to a sensor\<close>




section \<open>Copies\<close>

lemma copiarDesde_loop_correcto:
  assumes "cadena h it rest" and "bien_formada h this ts" and "set ts \<inter> set rest = {}"
  shows "\<exists>h' this' bs.
           copiarDesde_loop it (h, this) = Some (h', this') \<and>
           bien_formada h' this' (ts @ bs) \<and>
           datos h' (ts @ bs) = datos h ts @ datos h rest \<and>
           marco h h' ts \<and> (\<forall>b \<in> set bs. length h \<le> b) \<and> length bs = length rest"
  using assms
proof (induction rest arbitrary: it h this ts)
  case Nil
  then have "copiarDesde_loop it (h, this) = Some (h, this)"
    by (subst copiarDesde_loop.simps) simp
  with Nil show ?case
    by (intro exI [of _ h] exI [of _ this] exI [of _ "[]"]) (simp add: marco_refl datos_def)
next
  case (Cons a rest)
  from Cons.prems(1) obtain nd where it: "it = Some a" and nd: "lookup h a = Some nd"
    and tl: "cadena h (siguiente nd) rest"
    by (auto split: option.splits)
  have alt: "a < length h" using nd by (rule lookup_Some_lt)
  have ats: "a \<notin> set ts" using Cons.prems(3) by auto
  from push_back_correcto [OF Cons.prems(2), of "dato nd"] obtain h1 this1 where
    pb: "push_back (dato nd) (h, this) = Some (h1, this1)"
    and bf1: "bien_formada h1 this1 (ts @ [length h])"
    and d1: "datos h1 (ts @ [length h]) = datos h ts @ [dato nd]"
    and len1: "length h1 = Suc (length h)" and ma1: "marco h h1 ts"
    by blast
  have nd1: "lookup h1 a = Some nd"
    using ma1 alt ats nd by (simp add: marco_def)
  have step: "copiarDesde_loop it (h, this) = copiarDesde_loop (siguiente nd) (h1, this1)"
    by (subst copiarDesde_loop.simps) (simp add: it nd pb nd1)
  have dis: "set rest \<inter> set ts = {}" using Cons.prems(3) by auto
  have tl1: "cadena h1 (siguiente nd) rest"
    using ma1 tl dis by (rule marco_tramo)
  have "length h \<notin> set rest"
    using tramo_lt [OF tl] by auto
  then have dis1: "set (ts @ [length h]) \<inter> set rest = {}"
    using dis by auto
  from Cons.IH [OF tl1 bf1 dis1] obtain h' this' bs where
    cl: "copiarDesde_loop (siguiente nd) (h1, this1) = Some (h', this')"
    and bf': "bien_formada h' this' ((ts @ [length h]) @ bs)"
    and d': "datos h' ((ts @ [length h]) @ bs) = datos h1 (ts @ [length h]) @ datos h1 rest"
    and ma': "marco h1 h' (ts @ [length h])"
    and fr: "\<forall>b \<in> set bs. length h1 \<le> b" and lb: "length bs = length rest"
    by blast
  have dr: "datos h1 rest = datos h rest"
    using ma1 tl dis by (rule marco_datos)
  have da: "datos h (a # rest) = dato nd # datos h rest"
    using nd by (rule datos_Cons)
  have d: "datos h' (ts @ length h # bs) = datos h ts @ datos h (a # rest)"
    using d' d1 dr da by simp
  have ma: "marco h h' ts"
    unfolding marco_def
  proof (intro conjI allI impI)
    show "length h \<le> length h'" using ma1 ma' by (simp add: marco_def)
  next
    fix b assume b: "b < length h" "b \<notin> set ts"
    then have "lookup h' b = lookup h1 b" using ma' len1 by (simp add: marco_def)
    also have "\<dots> = lookup h b" using ma1 b by (simp add: marco_def)
    finally show "lookup h' b = lookup h b" .
  qed
  have fr': "\<forall>b \<in> set (length h # bs). length h \<le> b"
    using fr len1 by auto
  show ?case
    unfolding step
    using cl bf' d ma fr' lb
    by (intro exI [of _ h'] exI [of _ this'] exI [of _ "length h # bs"]) simp
qed

lemma ListaSensor_copia_correcto:
  assumes bf: "bien_formada h c as"
  shows "\<exists>h' d bs.
           ListaSensor_copia c h = Some (h', d) \<and> bien_formada h' d bs \<and>
           datos h' bs = datos h as \<and> (\<forall>b \<in> set bs. length h \<le> b) \<and>
           set bs \<inter> set as = {} \<and> marco h h' [] \<and>
           bien_formada h' c as \<and> datos h' as = datos h as"
proof -
  from bf have ch: "cadena h (cabeza c) as" by (simp add: bien_formada_def)
  have "set [] \<inter> set as = {}" by simp
  from copiarDesde_loop_correcto [OF ch bien_formada_vacia this] obtain h' d bs where
    cl: "copiarDesde_loop (cabeza c) (h, ListaSensor_vacia) = Some (h', d)"
    and bfd: "bien_formada h' d ([] @ bs)" and dd: "datos h' ([] @ bs) = datos h [] @ datos h as"
    and ma: "marco h h' []" and fr: "\<forall>b \<in> set bs. length h \<le> b"
    by blast
  have cp: "ListaSensor_copia c h = Some (h', d)"
    using cl by (simp add: ListaSensor_copia_def copiarDesde_def)
  have dis: "set bs \<inter> set as = {}"
    using fr tramo_lt [OF ch] by fastforce
  have e: "set as \<inter> set [] = {}" by simp
  have ch': "cadena h' (cabeza c) as" using ma ch e by (rule marco_tramo)
  have bfc: "bien_formada h' c as" using bf ch' by (simp add: bien_formada_def)
  have dc: "datos h' as = datos h as" using ma ch e by (rule marco_datos)
  show ?thesis using cp bfd dd fr dis ma bfc dc
    by (intro exI [of _ h'] exI [of _ d] exI [of _ bs]) (simp add: datos_def)
qed

lemma ejecutar_marco:
  fixes h :: "'a::linorder Nodo heap"
  assumes "bien_formada h l as"
  shows "\<exists>h' l' as' oks.
           ejecutar ops (h, l) = Some ((h', l'), oks) \<and> bien_formada h' l' as' \<and>
           marco h h' as \<and> (\<forall>a \<in> set as'. a \<in> set as \<or> length h \<le> a)"
  using assms
proof (induction ops arbitrary: h l as)
  case Nil
  then show ?case
    by (intro exI [of _ h] exI [of _ l] exI [of _ as] exI [of _ "[]"]) (simp add: marco_refl)
next
  case (Cons op ops)
  from aplicar_correcto [OF Cons.prems, of op] obtain h1 l1 ok as1 where
    ap: "aplicar op (h, l) = Some ((h1, l1), ok)" and bf1: "bien_formada h1 l1 as1"
    and ma1: "marco h h1 as" and sub1: "\<forall>a \<in> set as1. a \<in> set as \<or> length h \<le> a"
    by blast
  from Cons.IH [OF bf1] obtain h2 l2 as2 oks where
    ej: "ejecutar ops (h1, l1) = Some ((h2, l2), oks)" and bf2: "bien_formada h2 l2 as2"
    and ma2: "marco h1 h2 as1" and sub2: "\<forall>a \<in> set as2. a \<in> set as1 \<or> length h1 \<le> a"
    by blast
  have le: "length h \<le> length h1" using ma1 by (simp add: marco_def)
  have e: "ejecutar (op # ops) (h, l) = Some ((h2, l2), ok # oks)"
    using ap ej by simp
  have ma: "marco h h2 as"
    unfolding marco_def
  proof (intro conjI allI impI)
    show "length h \<le> length h2" using ma1 ma2 by (simp add: marco_def)
  next
    fix b assume b: "b < length h" "b \<notin> set as"
    then have "b \<notin> set as1" using sub1 by auto
    then have "lookup h2 b = lookup h1 b" using ma2 b le by (simp add: marco_def)
    also have "\<dots> = lookup h b" using ma1 b by (simp add: marco_def)
    finally show "lookup h2 b = lookup h b" .
  qed
  have sub: "\<forall>a \<in> set as2. a \<in> set as \<or> length h \<le> a"
    using sub1 sub2 le by fastforce
  show ?case using e bf2 ma sub
    by (intro exI [of _ h2] exI [of _ l2] exI [of _ as2] exI [of _ "ok # oks"]) simp
qed

lemma ejecutar_ajena:
  fixes h :: "'a::linorder Nodo heap"
  assumes bf: "bien_formada h l as" and bfc: "bien_formada h c cs" and dis: "set cs \<inter> set as = {}"
  shows "\<exists>h' l' oks.
           ejecutar ops (h, l) = Some ((h', l'), oks) \<and>
           bien_formada h' c cs \<and> datos h' cs = datos h cs"
proof -
  from ejecutar_marco [OF bf, of ops] obtain h' l' as' oks where
    ej: "ejecutar ops (h, l) = Some ((h', l'), oks)" and ma: "marco h h' as"
    by blast
  from bfc have ch: "cadena h (cabeza c) cs" by (simp add: bien_formada_def)
  have ch': "cadena h' (cabeza c) cs" using ma ch dis by (rule marco_tramo)
  have "bien_formada h' c cs" using bfc ch' by (simp add: bien_formada_def)
  moreover have "datos h' cs = datos h cs" using ma ch dis by (rule marco_datos)
  ultimately show ?thesis using ej by blast
qed


lemma operator_asignar_correcto:
  assumes ne: "this \<noteq> other" and bfd: "bien_formada h (L this) ds"
    and bfc: "bien_formada h (L other) as" and dis: "set ds \<inter> set as = {}"
  shows "\<exists>h' l' bs.
           operator_asignar this other (h, L) = Some (h', L(this := l')) \<and>
           (\<forall>x \<in> set ds. lookup h' x = None) \<and>
           bien_formada h' l' bs \<and> datos h' bs = datos h as \<and>
           (\<forall>b \<in> set bs. length h \<le> b) \<and> set bs \<inter> set as = {} \<and>
           bien_formada h' (L other) as \<and> datos h' as = datos h as"
proof -
  from clear_correcto [OF bfd] obtain h1 l1 where
    cl: "clear (h, L this) = Some (h1, l1)" and bf1: "bien_formada h1 l1 []"
    and len1: "length h1 = length h" and dead1: "\<forall>x \<in> set ds. lookup h1 x = None"
    and ma1: "marco h h1 ds"
    by blast
  from bfc have ch: "cadena h (cabeza (L other)) as" by (simp add: bien_formada_def)
  from bfd have chd: "cadena h (cabeza (L this)) ds" by (simp add: bien_formada_def)
  have dis': "set as \<inter> set ds = {}" using dis by auto
  have ch1: "cadena h1 (cabeza (L other)) as" using ma1 ch dis' by (rule marco_tramo)
  have da1: "datos h1 as = datos h as" using ma1 ch dis' by (rule marco_datos)
  have e: "set [] \<inter> set as = {}" by simp
  from copiarDesde_loop_correcto [OF ch1 bf1 e] obtain h2 l2 bs where
    cp: "copiarDesde_loop (cabeza (L other)) (h1, l1) = Some (h2, l2)"
    and bf2: "bien_formada h2 l2 ([] @ bs)"
    and d2: "datos h2 ([] @ bs) = datos h1 [] @ datos h1 as"
    and ma2: "marco h1 h2 []" and fr: "\<forall>b \<in> set bs. length h1 \<le> b"
    by blast
  have asg: "operator_asignar this other (h, L) = Some (h2, L(this := l2))"
    using ne cl cp by (simp add: operator_asignar_def copiarDesde_def)
  have dead: "\<forall>x \<in> set ds. lookup h2 x = None"
  proof
    fix x assume x: "x \<in> set ds"
    then have "x < length h1" using tramo_lt [OF chd] len1 by simp
    then have "lookup h2 x = lookup h1 x" using ma2 by (simp add: marco_def)
    with dead1 x show "lookup h2 x = None" by simp
  qed
  have e': "set as \<inter> set [] = {}" by simp
  have ch2: "cadena h2 (cabeza (L other)) as" using ma2 ch1 e' by (rule marco_tramo)
  have bfc2: "bien_formada h2 (L other) as" using bfc ch2 by (simp add: bien_formada_def)
  have da2: "datos h2 as = datos h as" using marco_datos [OF ma2 ch1 e'] da1 by simp
  have fr': "\<forall>b \<in> set bs. length h \<le> b" using fr len1 by simp
  have disb: "set bs \<inter> set as = {}" using fr' tramo_lt [OF ch] by fastforce
  have db: "datos h2 bs = datos h as" using d2 da1 by (simp add: datos_def)
  show ?thesis using asg dead bf2 db fr' disb bfc2 da2
    by (intro exI [of _ h2] exI [of _ l2] exI [of _ bs]) simp
qed

lemma operator_asignar_mismo: "operator_asignar this this (h, L) = Some (h, L)"
  by (simp add: operator_asignar_def)

text \<open>
  C3. Let \<open>c\<close> be a well-formed list over the nodes \<open>as\<close>. The copy constructor returns a
  well-formed list over nodes \<open>bs\<close>, none of which was alive before, with the values of
  \<open>c\<close> in the same order; \<open>c\<close> still has its nodes and values; sum and size of the copy are
  those of \<open>c\<close>. Whatever sequence of \<^verbatim>\<open>push_back\<close>, \<^verbatim>\<open>pop_min\<close> and \<^verbatim>\<open>clear\<close> calls is then
  made on the copy, \<open>c\<close> keeps its nodes and its values, and the other way round. The
  assignment to a well-formed list at another address that shares no node with \<open>c\<close> first
  deletes all the nodes of the left operand and then makes it a copy in the same sense;
  the assignment of a list object to itself changes nothing.
\<close>

theorem copia_independiente:
  fixes h :: "'a::{linorder,zero,plus} Nodo heap"
  assumes "bien_formada h c as"
  shows "(\<exists>h' d bs.
            ListaSensor_copia c h = Some (h', d) \<and>
            bien_formada h' d bs \<and> datos h' bs = datos h as \<and>
            set bs \<inter> set as = {} \<and> (\<forall>b \<in> set bs. lookup h b = None) \<and>
            bien_formada h' c as \<and> datos h' as = datos h as \<and>
            sum_lista h' d = sum_lista h c \<and> size_lista d = size_lista c \<and>
            (\<forall>ops. \<exists>h2 d2 oks.
               ejecutar ops (h', d) = Some ((h2, d2), oks) \<and>
               bien_formada h2 c as \<and> datos h2 as = datos h as) \<and>
            (\<forall>ops. \<exists>h2 c2 oks.
               ejecutar ops (h', c) = Some ((h2, c2), oks) \<and>
               bien_formada h2 d bs \<and> datos h2 bs = datos h as)) \<and>
         (L other = c \<and> this \<noteq> other \<and> bien_formada h (L this) ds \<and> set ds \<inter> set as = {} \<longrightarrow>
            (\<exists>h' l' bs.
               operator_asignar this other (h, L) = Some (h', L(this := l')) \<and>
               (\<forall>x \<in> set ds. lookup h' x = None) \<and>
               bien_formada h' l' bs \<and> datos h' bs = datos h as \<and>
               set bs \<inter> set as = {} \<and> (\<forall>b \<in> set bs. lookup h b = None) \<and>
               bien_formada h' c as \<and> datos h' as = datos h as \<and>
               (\<forall>ops. \<exists>h2 l2 oks.
                  ejecutar ops (h', l') = Some ((h2, l2), oks) \<and>
                  bien_formada h2 c as \<and> datos h2 as = datos h as) \<and>
               (\<forall>ops. \<exists>h2 c2 oks.
                  ejecutar ops (h', c) = Some ((h2, c2), oks) \<and>
                  bien_formada h2 l' bs \<and> datos h2 bs = datos h as))) \<and>
         operator_asignar this this (h, L) = Some (h, L)"
proof (intro conjI impI)
  from ListaSensor_copia_correcto [OF assms] obtain h' d bs where
    cp: "ListaSensor_copia c h = Some (h', d)" and bfd: "bien_formada h' d bs"
    and dd: "datos h' bs = datos h as" and fr: "\<forall>b \<in> set bs. length h \<le> b"
    and dis: "set bs \<inter> set as = {}" and bfc: "bien_formada h' c as"
    and dc: "datos h' as = datos h as"
    by blast
  have nuevo: "\<forall>b \<in> set bs. lookup h b = None" using fr by (simp add: lookup_ge)
  have su: "sum_lista h' d = sum_lista h c"
    using sum_lista_correcto [OF bfd] sum_lista_correcto [OF assms] dd by simp
  have sz: "size_lista d = size_lista c"
    using bien_formada_size [OF bfd] bien_formada_size [OF assms]
      bien_formada_length_datos [of h' bs] bien_formada_length_datos [of h as] dd by simp
  have dis': "set as \<inter> set bs = {}" using dis by auto
  have i1: "\<forall>ops. \<exists>h2 d2 oks.
               ejecutar ops (h', d) = Some ((h2, d2), oks) \<and>
               bien_formada h2 c as \<and> datos h2 as = datos h as"
    using ejecutar_ajena [OF bfd bfc dis'] dc by simp
  have i2: "\<forall>ops. \<exists>h2 c2 oks.
               ejecutar ops (h', c) = Some ((h2, c2), oks) \<and>
               bien_formada h2 d bs \<and> datos h2 bs = datos h as"
    using ejecutar_ajena [OF bfc bfd dis] dd by simp
  show "\<exists>h' d bs.
            ListaSensor_copia c h = Some (h', d) \<and>
            bien_formada h' d bs \<and> datos h' bs = datos h as \<and>
            set bs \<inter> set as = {} \<and> (\<forall>b \<in> set bs. lookup h b = None) \<and>
            bien_formada h' c as \<and> datos h' as = datos h as \<and>
            sum_lista h' d = sum_lista h c \<and> size_lista d = size_lista c \<and>
            (\<forall>ops. \<exists>h2 d2 oks.
               ejecutar ops (h', d) = Some ((h2, d2), oks) \<and>
               bien_formada h2 c as \<and> datos h2 as = datos h as) \<and>
            (\<forall>ops. \<exists>h2 c2 oks.
               ejecutar ops (h', c) = Some ((h2, c2), oks) \<and>
               bien_formada h2 d bs \<and> datos h2 bs = datos h as)"
    using cp bfd dd dis nuevo bfc dc su sz i1 i2
    by (intro exI [of _ h'] exI [of _ d] exI [of _ bs] conjI)
next
  assume a: "L other = c \<and> this \<noteq> other \<and> bien_formada h (L this) ds \<and> set ds \<inter> set as = {}"
  then have ne: "this \<noteq> other" and bfl: "bien_formada h (L this) ds"
    and bfo: "bien_formada h (L other) as" and disd: "set ds \<inter> set as = {}" and lo: "L other = c"
    using assms by simp_all
  from operator_asignar_correcto [OF ne bfl bfo disd] obtain h' l' bs where
    asg: "operator_asignar this other (h, L) = Some (h', L(this := l'))"
    and dead: "\<forall>x \<in> set ds. lookup h' x = None"
    and bfl': "bien_formada h' l' bs" and dl: "datos h' bs = datos h as"
    and fr: "\<forall>b \<in> set bs. length h \<le> b" and dis: "set bs \<inter> set as = {}"
    and bfc: "bien_formada h' c as" and dc: "datos h' as = datos h as"
    unfolding lo by blast
  have nuevo: "\<forall>b \<in> set bs. lookup h b = None" using fr by (simp add: lookup_ge)
  have dis': "set as \<inter> set bs = {}" using dis by auto
  have i1: "\<forall>ops. \<exists>h2 l2 oks.
                  ejecutar ops (h', l') = Some ((h2, l2), oks) \<and>
                  bien_formada h2 c as \<and> datos h2 as = datos h as"
    using ejecutar_ajena [OF bfl' bfc dis'] dc by simp
  have i2: "\<forall>ops. \<exists>h2 c2 oks.
                  ejecutar ops (h', c) = Some ((h2, c2), oks) \<and>
                  bien_formada h2 l' bs \<and> datos h2 bs = datos h as"
    using ejecutar_ajena [OF bfc bfl' dis] dl by simp
  show "\<exists>h' l' bs.
               operator_asignar this other (h, L) = Some (h', L(this := l')) \<and>
               (\<forall>x \<in> set ds. lookup h' x = None) \<and>
               bien_formada h' l' bs \<and> datos h' bs = datos h as \<and>
               set bs \<inter> set as = {} \<and> (\<forall>b \<in> set bs. lookup h b = None) \<and>
               bien_formada h' c as \<and> datos h' as = datos h as \<and>
               (\<forall>ops. \<exists>h2 l2 oks.
                  ejecutar ops (h', l') = Some ((h2, l2), oks) \<and>
                  bien_formada h2 c as \<and> datos h2 as = datos h as) \<and>
               (\<forall>ops. \<exists>h2 c2 oks.
                  ejecutar ops (h', c) = Some ((h2, c2), oks) \<and>
                  bien_formada h2 l' bs \<and> datos h2 bs = datos h as)"
    using asg dead bfl' dl dis nuevo bfc dc i1 i2
    by (intro exI [of _ h'] exI [of _ l'] exI [of _ bs] conjI)
next
  show "operator_asignar this this (h, L) = Some (h, L)"
    by (rule operator_asignar_mismo)
qed


theorem copia_independiente_witness:
  "bien_formada
     [Some \<lparr>dato = 3::int, siguiente = Some 1\<rparr>, Some \<lparr>dato = 1, siguiente = None\<rparr>,
      Some \<lparr>dato = 7, siguiente = None\<rparr>]
     \<lparr>cabeza = Some 0, cola = Some 1, n_elems = 2\<rparr> [0, 1] \<and>
   bien_formada
     [Some \<lparr>dato = 3::int, siguiente = Some 1\<rparr>, Some \<lparr>dato = 1, siguiente = None\<rparr>,
      Some \<lparr>dato = 7, siguiente = None\<rparr>]
     \<lparr>cabeza = Some 2, cola = Some 2, n_elems = 1\<rparr> [2] \<and>
   (\<exists>h' d bs.
      ListaSensor_copia \<lparr>cabeza = Some 0, cola = Some 1, n_elems = 2\<rparr>
        [Some \<lparr>dato = 3::int, siguiente = Some 1\<rparr>, Some \<lparr>dato = 1, siguiente = None\<rparr>,
         Some \<lparr>dato = 7, siguiente = None\<rparr>] = Some (h', d) \<and>
      bien_formada h' d bs \<and> datos h' bs = [3, 1] \<and> size_lista d = 2) \<and>
   (\<exists>h' l' bs.
      operator_asignar 1 0
        ([Some \<lparr>dato = 3::int, siguiente = Some 1\<rparr>, Some \<lparr>dato = 1, siguiente = None\<rparr>,
          Some \<lparr>dato = 7, siguiente = None\<rparr>],
         \<lambda>i. if i = 0 then \<lparr>cabeza = Some 0, cola = Some 1, n_elems = 2\<rparr>
              else \<lparr>cabeza = Some 2, cola = Some 2, n_elems = 1\<rparr>) =
        Some (h', (\<lambda>i. if i = 0 then \<lparr>cabeza = Some 0, cola = Some 1, n_elems = 2\<rparr>
                        else \<lparr>cabeza = Some 2, cola = Some 2, n_elems = 1\<rparr>)(1 := l')) \<and>
      lookup h' 2 = None \<and> bien_formada h' l' bs \<and> datos h' bs = [3, 1])"
proof -
  let ?h = "[Some \<lparr>dato = 3::int, siguiente = Some 1\<rparr>, Some \<lparr>dato = 1, siguiente = None\<rparr>,
      Some \<lparr>dato = 7, siguiente = None\<rparr>]"
  let ?c = "\<lparr>cabeza = Some 0, cola = Some 1, n_elems = 2\<rparr>"
  let ?d = "\<lparr>cabeza = Some 2, cola = Some 2, n_elems = 1\<rparr>"
  let ?L = "\<lambda>i::nat. if i = 0 then ?c else ?d"
  have bfc: "bien_formada ?h ?c [0, 1]"
    by (simp add: bien_formada_def lookup_def)
  have bfd: "bien_formada ?h ?d [2]"
    by (simp add: bien_formada_def lookup_def)
  have da: "datos ?h [0, 1] = [3, 1]" by (simp add: datos_def lookup_def)
  have sz: "size_lista ?c = 2" by (simp add: size_lista_def)
  have pre: "?L 0 = ?c \<and> (1::nat) \<noteq> 0 \<and> bien_formada ?h (?L 1) [2] \<and> set [2::nat] \<inter> set [0, 1] = {}"
    using bfd by simp
  note th = copia_independiente [OF bfc, of ?L 0 1 "[2]"]
  from th obtain h' d bs where
    "ListaSensor_copia ?c ?h = Some (h', d)" "bien_formada h' d bs" "datos h' bs = datos ?h [0, 1]"
    "size_lista d = size_lista ?c"
    by blast
  then have one: "\<exists>h' d bs. ListaSensor_copia ?c ?h = Some (h', d) \<and>
      bien_formada h' d bs \<and> datos h' bs = [3, 1] \<and> size_lista d = 2"
    unfolding da sz by blast
  from th pre obtain h' l' bs where
    "operator_asignar 1 0 (?h, ?L) = Some (h', ?L(1 := l'))" "\<forall>x \<in> set [2::nat]. lookup h' x = None"
    "bien_formada h' l' bs" "datos h' bs = datos ?h [0, 1]"
    by blast
  then have two: "\<exists>h' l' bs. operator_asignar 1 0 (?h, ?L) = Some (h', ?L(1 := l')) \<and>
      lookup h' 2 = None \<and> bien_formada h' l' bs \<and> datos h' bs = [3, 1]"
    unfolding da by auto
  show ?thesis using bfc bfd one two by (intro conjI)
qed

section \<open>The name of a sensor\<close>

lemma replicate_update_mismo: "(replicate k x)[i := x] = replicate k x"
proof (rule nth_equalityI)
  show "length ((replicate k x)[i := x]) = length (replicate k x)" by simp
next
  fix j assume "j < length ((replicate k x)[i := x])"
  then have "j < k" by simp
  then show "(replicate k x)[i := x] ! j = replicate k x ! j"
    by (cases "j = i") simp_all
qed

lemma nombre_inicial_forma:
  "nombre_inicial ident = take 49 ident @ CHR 0x00 # replicate (49 - length ident) (CHR 0x00)"
proof (cases "length ident \<le> 49")
  case True
  then have r: "replicate (50 - length ident) (CHR 0x00) =
      CHR 0x00 # replicate (49 - length ident) (CHR 0x00)"
    by (simp add: Suc_diff_le flip: replicate_Suc)
  have "nombre_inicial ident = (ident @ replicate (50 - length ident) (CHR 0x00))[49 := CHR 0x00]"
    using True by (simp add: nombre_inicial_def strncpy_def)
  also have "\<dots> = ident @ (replicate (50 - length ident) (CHR 0x00))[49 - length ident := CHR 0x00]"
    using True by (simp add: list_update_append)
  also have "\<dots> = ident @ replicate (50 - length ident) (CHR 0x00)"
    by (simp only: replicate_update_mismo)
  finally show ?thesis using True r by simp
next
  case False
  then have len: "49 < length ident" by simp
  have "nombre_inicial ident = (take 50 ident)[49 := CHR 0x00]"
    using False by (simp add: nombre_inicial_def strncpy_def)
  also have "take 50 ident = take 49 ident @ [ident ! 49]"
    using take_Suc_conv_app_nth [OF len] by simp
  also have "(take 49 ident @ [ident ! 49])[49 := CHR 0x00] = take 49 ident @ [CHR 0x00]"
    using len by (simp add: list_update_append)
  finally show ?thesis using len by simp
qed

lemma takeWhile_hasta: "x \<notin> set xs \<Longrightarrow> takeWhile (\<lambda>c. c \<noteq> x) (xs @ x # ys) = xs"
  by (induction xs) auto

lemma getNombre_take:
  assumes "CHR 0x00 \<notin> set ident" and "nombre s = nombre_inicial ident"
  shows "getNombre s = take 49 ident"
proof -
  have "CHR 0x00 \<notin> set (take 49 ident)"
    using assms(1) by (auto dest: in_set_takeD)
  then show ?thesis
    unfolding getNombre_def assms(2) nombre_inicial_forma by (rule takeWhile_hasta)
qed

lemma getNombre_constructores:
  assumes "CHR 0x00 \<notin> set ident"
  shows "getNombre (SensorTemperatura ident) = take 49 ident"
    and "getNombre (SensorPresion ident) = take 49 ident"
  using assms by (simp_all add: getNombre_take SensorTemperatura_def SensorPresion_def)

section \<open>Looking a sensor up by its name\<close>

lemma strcmp_cero: "strcmp a b = 0 \<longleftrightarrow> a = b"
  by (induction a b rule: strcmp.induct) auto

lemma buscar_loop_correcto:
  assumes "cadena hg it gs" and "datos hg gs = map Some ss"
    and "\<forall>sp \<in> set ss. lookup hs sp \<noteq> None"
  shows "buscar_loop hs hg it ident =
           Some (find (\<lambda>sp. getNombre (the (lookup hs sp)) = ident) ss)"
  using assms
proof (induction gs arbitrary: it ss)
  case Nil
  then show ?case by (subst buscar_loop.simps) (simp add: datos_def)
next
  case (Cons a gs)
  from Cons.prems(1) obtain nd where it: "it = Some a" and nd: "lookup hg a = Some nd"
    and tl: "cadena hg (siguiente nd) gs"
    by (auto split: option.splits)
  from Cons.prems(2) nd obtain sp ss' where ss: "ss = sp # ss'" and sn: "sensor nd = Some sp"
    and d': "datos hg gs = map Some ss'"
    by (cases ss) (auto simp: datos_def)
  from Cons.prems(3) ss obtain s where s: "lookup hs sp = Some s"
    and vivos: "\<forall>sq \<in> set ss'. lookup hs sq \<noteq> None"
    by auto
  show ?case
  proof (cases "getNombre s = ident")
    case True
    have "buscar_loop hs hg it ident = Some (Some sp)"
      by (subst buscar_loop.simps) (simp add: it nd sn s True strcmp_cero)
    then show ?thesis using ss s True by simp
  next
    case False
    have "buscar_loop hs hg it ident = buscar_loop hs hg (siguiente nd) ident"
      by (subst buscar_loop.simps) (simp add: it nd sn s False strcmp_cero)
    also have "\<dots> = Some (find (\<lambda>sp. getNombre (the (lookup hs sp)) = ident) ss')"
      using tl d' vivos by (rule Cons.IH)
    finally show ?thesis using ss s False by simp
  qed
qed

lemma buscarPorNombre_correcto:
  assumes "bien_formada hg g gs" and "datos hg gs = map Some ss"
    and "\<forall>sp \<in> set ss. lookup hs sp \<noteq> None"
  shows "buscarPorNombre ident (hs, hg, g) =
           Some (find (\<lambda>sp. getNombre (the (lookup hs sp)) = ident) ss)"
proof -
  from assms(1) have "cadena hg (cabeza g) gs" by (simp add: bien_formada_def)
  from buscar_loop_correcto [OF this assms(2,3)] show ?thesis
    by (simp add: buscarPorNombre_def)
qed

text \<open>
  C6. In a well-formed registry whose nodes point to the live sensors \<open>ss\<close>, in this order,
  \<^verbatim>\<open>buscarPorNombre\<close> returns the first sensor of \<open>ss\<close> whose name is the given text and
  \<^verbatim>\<open>NULL\<close> when there is none; sensors after the first match, with the same name or not, play
  no part. The order of \<open>ss\<close> is the order of insertion: \<^verbatim>\<open>push_back\<close> puts the new sensor
  behind all the others.
\<close>

theorem buscarPorNombre_first_match:
  assumes "bien_formada hg g gs" and "datos hg gs = map Some ss"
    and "\<forall>sp \<in> set ss. lookup hs sp \<noteq> None"
  shows "buscarPorNombre ident (hs, hg, g) =
           Some (find (\<lambda>sp. getNombre (the (lookup hs sp)) = ident) ss) \<and>
         (buscarPorNombre ident (hs, hg, g) = Some None \<longleftrightarrow>
            (\<forall>sp \<in> set ss. getNombre (the (lookup hs sp)) \<noteq> ident)) \<and>
         (\<forall>sp. buscarPorNombre ident (hs, hg, g) = Some (Some sp) \<longleftrightarrow>
            (\<exists>i < length ss. ss ! i = sp \<and> getNombre (the (lookup hs sp)) = ident \<and>
               (\<forall>j < i. getNombre (the (lookup hs (ss ! j))) \<noteq> ident))) \<and>
         (\<exists>hg' g'. push_back (Some nuevo) (hg, g) = Some (hg', g') \<and>
            bien_formada hg' g' (gs @ [length hg]) \<and>
            datos hg' (gs @ [length hg]) = map Some (ss @ [nuevo]))"
proof -
  note b = buscarPorNombre_correcto [OF assms, of ident]
  have n: "buscarPorNombre ident (hs, hg, g) = Some None \<longleftrightarrow>
            (\<forall>sp \<in> set ss. getNombre (the (lookup hs sp)) \<noteq> ident)"
    unfolding b by (auto simp: find_None_iff)
  have s: "\<forall>sp. buscarPorNombre ident (hs, hg, g) = Some (Some sp) \<longleftrightarrow>
            (\<exists>i < length ss. ss ! i = sp \<and> getNombre (the (lookup hs sp)) = ident \<and>
               (\<forall>j < i. getNombre (the (lookup hs (ss ! j))) \<noteq> ident))"
    unfolding b by (auto simp: find_Some_iff)
  from push_back_correcto [OF assms(1), of "Some nuevo"] obtain hg' g' where
    "push_back (Some nuevo) (hg, g) = Some (hg', g')" "bien_formada hg' g' (gs @ [length hg])"
    "datos hg' (gs @ [length hg]) = datos hg gs @ [Some nuevo]"
    by blast
  then have p: "\<exists>hg' g'. push_back (Some nuevo) (hg, g) = Some (hg', g') \<and>
            bien_formada hg' g' (gs @ [length hg]) \<and>
            datos hg' (gs @ [length hg]) = map Some (ss @ [nuevo])"
    using assms(2) by auto
  show ?thesis using b n s p by (intro conjI)
qed

theorem buscarPorNombre_first_match_witness:
  "bien_formada
     [Some \<lparr>dato = Some 0, siguiente = Some 1\<rparr>, Some \<lparr>dato = Some 1, siguiente = Some 2\<rparr>,
      Some \<lparr>dato = Some (2::nat), siguiente = None\<rparr>]
     \<lparr>cabeza = Some 0, cola = Some 2, n_elems = 3\<rparr> [0, 1, 2] \<and>
   datos
     [Some \<lparr>dato = Some 0, siguiente = Some 1\<rparr>, Some \<lparr>dato = Some 1, siguiente = Some 2\<rparr>,
      Some \<lparr>dato = Some (2::nat), siguiente = None\<rparr>] [0, 1, 2] = map Some [0, 1, 2] \<and>
   lookup [Some (SensorTemperatura ''B''), Some (SensorPresion ''A''),
           Some (SensorTemperatura ''A'')] 0 \<noteq> None \<and>
   lookup [Some (SensorTemperatura ''B''), Some (SensorPresion ''A''),
           Some (SensorTemperatura ''A'')] 1 \<noteq> None \<and>
   lookup [Some (SensorTemperatura ''B''), Some (SensorPresion ''A''),
           Some (SensorTemperatura ''A'')] 2 \<noteq> None \<and>
   buscarPorNombre ''A''
     ([Some (SensorTemperatura ''B''), Some (SensorPresion ''A''), Some (SensorTemperatura ''A'')],
      [Some \<lparr>dato = Some 0, siguiente = Some 1\<rparr>, Some \<lparr>dato = Some 1, siguiente = Some 2\<rparr>,
       Some \<lparr>dato = Some (2::nat), siguiente = None\<rparr>],
      \<lparr>cabeza = Some 0, cola = Some 2, n_elems = 3\<rparr>) = Some (Some 1) \<and>
   buscarPorNombre ''C''
     ([Some (SensorTemperatura ''B''), Some (SensorPresion ''A''), Some (SensorTemperatura ''A'')],
      [Some \<lparr>dato = Some 0, siguiente = Some 1\<rparr>, Some \<lparr>dato = Some 1, siguiente = Some 2\<rparr>,
       Some \<lparr>dato = Some (2::nat), siguiente = None\<rparr>],
      \<lparr>cabeza = Some 0, cola = Some 2, n_elems = 3\<rparr>) = Some None"
proof -
  let ?hs = "[Some (SensorTemperatura ''B''), Some (SensorPresion ''A''),
              Some (SensorTemperatura ''A'')]"
  let ?hg = "[Some \<lparr>dato = Some (0::nat), siguiente = Some 1\<rparr>,
      Some \<lparr>dato = Some 1, siguiente = Some 2\<rparr>, Some \<lparr>dato = Some 2, siguiente = None\<rparr>]"
  let ?g = "\<lparr>cabeza = Some 0, cola = Some 2, n_elems = 3\<rparr>"
  have bf: "bien_formada ?hg ?g [0, 1, 2]"
    by (simp add: bien_formada_def lookup_def)
  have da: "datos ?hg [0, 1, 2] = map Some [0, 1, 2]"
    by (simp add: datos_def lookup_def)
  have vi: "\<forall>sp \<in> set [0, 1, 2]. lookup ?hs sp \<noteq> None"
    by (simp add: lookup_def)
  have nom: "getNombre (SensorTemperatura ''B'') = ''B''" "getNombre (SensorPresion ''A'') = ''A''"
    "getNombre (SensorTemperatura ''A'') = ''A''"
    by (simp_all add: getNombre_constructores)
  have fa: "find (\<lambda>sp. getNombre (the (lookup ?hs sp)) = ''A'') [0, 1, 2] = Some 1"
    by (simp add: lookup_def nom)
  have fc: "find (\<lambda>sp. getNombre (the (lookup ?hs sp)) = ''C'') [0, 1, 2] = None"
    by (simp add: lookup_def nom)
  have "buscarPorNombre ''A'' (?hs, ?hg, ?g) = Some (Some 1)"
    using buscarPorNombre_first_match [OF bf da vi, of "''A''"] unfolding fa by blast
  moreover have "buscarPorNombre ''C'' (?hs, ?hg, ?g) = Some None"
    using buscarPorNombre_first_match [OF bf da vi, of "''C''"] unfolding fc by blast
  ultimately show ?thesis using bf da vi by simp
qed

text \<open>
  C9. For an identifier without NUL characters, the name of a sensor constructed with it
  is its first 49 characters: at most 49 characters long, and the identifier itself when
  that has at most 49 characters. When the identifier is longer, the sensor is created,
  appended to a well-formed registry of live sensors and then looked up by the full
  identifier, the lookup returns, but never the sensor just created.
\<close>

theorem nombre_truncated_to_49:
  assumes "CHR 0x00 \<notin> set ident"
  shows "getNombre (SensorTemperatura ident) = take 49 ident \<and>
         getNombre (SensorPresion ident) = take 49 ident \<and>
         length (getNombre (SensorTemperatura ident)) \<le> 49 \<and>
         length (getNombre (SensorPresion ident)) \<le> 49 \<and>
         (length ident \<le> 49 \<longrightarrow>
            getNombre (SensorTemperatura ident) = ident \<and> getNombre (SensorPresion ident) = ident) \<and>
         (49 < length ident \<and> bien_formada hg g gs \<and> datos hg gs = map Some ss \<and>
          (\<forall>sp \<in> set ss. lookup hs sp \<noteq> None) \<and>
          (s = SensorTemperatura ident \<or> s = SensorPresion ident) \<longrightarrow>
            (\<exists>hs' hg' g' r.
               alloc s hs = (length hs, hs') \<and>
               push_back (Some (length hs)) (hg, g) = Some (hg', g') \<and>
               buscarPorNombre ident (hs', hg', g') = Some r \<and> r \<noteq> Some (length hs)))"
proof -
  note gn = getNombre_constructores [OF assms]
  have a: "getNombre (SensorTemperatura ident) = take 49 ident"
    "getNombre (SensorPresion ident) = take 49 ident"
    by (rule gn)+
  have b: "length (getNombre (SensorTemperatura ident)) \<le> 49"
    "length (getNombre (SensorPresion ident)) \<le> 49"
    by (simp_all add: gn)
  have c: "length ident \<le> 49 \<longrightarrow>
            getNombre (SensorTemperatura ident) = ident \<and> getNombre (SensorPresion ident) = ident"
    by (simp add: gn)
  have d: "49 < length ident \<and> bien_formada hg g gs \<and> datos hg gs = map Some ss \<and>
          (\<forall>sp \<in> set ss. lookup hs sp \<noteq> None) \<and>
          (s = SensorTemperatura ident \<or> s = SensorPresion ident) \<longrightarrow>
            (\<exists>hs' hg' g' r.
               alloc s hs = (length hs, hs') \<and>
               push_back (Some (length hs)) (hg, g) = Some (hg', g') \<and>
               buscarPorNombre ident (hs', hg', g') = Some r \<and> r \<noteq> Some (length hs))"
  proof
    assume h: "49 < length ident \<and> bien_formada hg g gs \<and> datos hg gs = map Some ss \<and>
          (\<forall>sp \<in> set ss. lookup hs sp \<noteq> None) \<and>
          (s = SensorTemperatura ident \<or> s = SensorPresion ident)"
    then have largo: "49 < length ident" and bf: "bien_formada hg g gs"
      and da: "datos hg gs = map Some ss" and vivos: "\<forall>sp \<in> set ss. lookup hs sp \<noteq> None"
      and s: "s = SensorTemperatura ident \<or> s = SensorPresion ident"
      by simp_all
    let ?sp = "length hs"
    let ?hs' = "hs @ [Some s]"
    have al: "alloc s hs = (?sp, ?hs')" by (simp add: alloc_def)
    from push_back_correcto [OF bf, of "Some ?sp"] obtain hg' g' where
      pb: "push_back (Some ?sp) (hg, g) = Some (hg', g')"
      and bf': "bien_formada hg' g' (gs @ [length hg])"
      and da': "datos hg' (gs @ [length hg]) = datos hg gs @ [Some ?sp]"
      by blast
    have da'': "datos hg' (gs @ [length hg]) = map Some (ss @ [?sp])"
      using da' da by simp
    have vivos': "\<forall>sq \<in> set (ss @ [?sp]). lookup ?hs' sq \<noteq> None"
      using vivos by (auto simp: lookup_snoc)
    let ?P = "\<lambda>sq. getNombre (the (lookup ?hs' sq)) = ident"
    have bu: "buscarPorNombre ident (?hs', hg', g') = Some (find ?P (ss @ [?sp]))"
      using bf' da'' vivos' by (rule buscarPorNombre_correcto)
    have nom: "getNombre s = take 49 ident" using s gn by auto
    have "\<not> ?P ?sp"
    proof
      assume "?P ?sp"
      then have "take 49 ident = ident" using nom by (simp add: lookup_snoc)
      then have "length (take 49 ident) = length ident" by simp
      with largo show False by simp
    qed
    then have "find ?P (ss @ [?sp]) \<noteq> Some ?sp"
      by (auto simp: find_Some_iff)
    with al pb bu show "\<exists>hs' hg' g' r.
               alloc s hs = (length hs, hs') \<and>
               push_back (Some (length hs)) (hg, g) = Some (hg', g') \<and>
               buscarPorNombre ident (hs', hg', g') = Some r \<and> r \<noteq> Some (length hs)"
      by blast
  qed
  show ?thesis using a b c d by (intro conjI)
qed

theorem nombre_truncated_to_49_witness:
  "CHR 0x00 \<notin> set (replicate 50 (CHR ''A'')) \<and>
   49 < length (replicate 50 (CHR ''A'')) \<and>
   bien_formada ([]::NodoG heap) ListaSensor_vacia [] \<and>
   datos ([]::NodoG heap) [] = map Some [] \<and>
   getNombre (SensorTemperatura (replicate 50 (CHR ''A''))) = replicate 49 (CHR ''A'') \<and>
   (\<exists>hs' hg' g' r.
      alloc (SensorTemperatura (replicate 50 (CHR ''A''))) [] = (0, hs') \<and>
      push_back (Some 0) ([], ListaSensor_vacia) = Some (hg', g') \<and>
      buscarPorNombre (replicate 50 (CHR ''A'')) (hs', hg', g') = Some r \<and> r \<noteq> Some 0)"
proof -
  let ?id = "replicate 50 (CHR ''A'')"
  have nul: "CHR 0x00 \<notin> set ?id" by simp
  have largo: "49 < length ?id" by simp
  have bf: "bien_formada ([]::NodoG heap) ListaSensor_vacia []" by (rule bien_formada_vacia)
  have da: "datos ([]::NodoG heap) [] = map Some []" by (simp add: datos_def)
  have vi: "\<forall>sp \<in> set []. lookup ([]::SensorBase heap) sp \<noteq> None" by simp
  note th = nombre_truncated_to_49 [OF nul, of "[]" ListaSensor_vacia "[]" "[]" "[]"
      "SensorTemperatura ?id"]
  have "getNombre (SensorTemperatura ?id) = take 49 ?id" using th by blast
  then have one: "getNombre (SensorTemperatura ?id) = replicate 49 (CHR ''A'')" by simp
  have two: "\<exists>hs' hg' g' r.
      alloc (SensorTemperatura ?id) [] = (0, hs') \<and>
      push_back (Some 0) ([], ListaSensor_vacia) = Some (hg', g') \<and>
      buscarPorNombre ?id (hs', hg', g') = Some r \<and> r \<noteq> Some 0"
    using th largo bf da vi by simp
  show ?thesis using nul largo bf da one two by (intro conjI)
qed

section \<open>Releasing the registry\<close>

subsection \<open>Released cells\<close>

lemma borrar_simps:
  "borrar [] h = h" "borrar (x # xs) h = borrar xs (h[x := None])"
  "borrar (xs @ ys) h = borrar ys (borrar xs h)"
  by (simp_all add: borrar_def)

lemma length_borrar: "length (borrar xs h) = length h"
  by (induction xs arbitrary: h) (simp_all add: borrar_simps)

lemma lookup_borrar: "lookup (borrar xs h) b = (if b \<in> set xs then None else lookup h b)"
proof (induction xs arbitrary: h)
  case Nil
  show ?case by (simp add: borrar_simps)
next
  case (Cons x xs)
  have u: "lookup (h[x := None]) b = (if b = x then None else lookup h b)"
    by (cases "x < length h") (simp_all add: lookup_upd lookup_ge)
  have "lookup (borrar (x # xs) h) b = (if b \<in> set xs then None else lookup (h[x := None]) b)"
    by (simp only: borrar_simps Cons)
  also have "\<dots> = (if b \<in> set (x # xs) then None else lookup h b)"
    unfolding u by simp
  finally show ?case .
qed

lemma clear_loop_borrar: "cadena h p as \<Longrightarrow> clear_loop h p = Some (borrar as h)"
proof (induction as arbitrary: h p)
  case Nil
  then show ?case by (subst clear_loop.simps) (simp add: borrar_simps)
next
  case (Cons a as)
  from Cons.prems obtain nd where p: "p = Some a" and nd: "lookup h a = Some nd"
    and tl: "cadena h (siguiente nd) as"
    by (auto split: option.splits)
  have "distinct (a # as)" using Cons.prems by (rule cadena_distinct)
  then have anot: "a \<notin> set as" by simp
  have "tramo (h[a := None]) (siguiente nd) as None = tramo h (siguiente nd) as None"
  proof (rule tramo_cong)
    fix b assume "b \<in> set as"
    with anot have "b \<noteq> a" by auto
    then show "lookup (h[a := None]) b = lookup h b" by (simp add: lookup_upd)
  qed
  with tl have "cadena (h[a := None]) (siguiente nd) as" by simp
  then have "clear_loop (h[a := None]) (siguiente nd) = Some (borrar as (h[a := None]))"
    by (rule Cons.IH)
  moreover have "clear_loop h p = clear_loop (h[a := None]) (siguiente nd)"
    by (subst clear_loop.simps) (simp add: p nd delete_def)
  ultimately show ?case by (simp add: borrar_simps)
qed

lemma clear_borrar:
  assumes "bien_formada h l as"
  shows "clear (h, l) = Some (borrar as h, l\<lparr>cabeza := None, cola := None, n_elems := 0\<rparr>)"
proof -
  from assms have "cadena h (cabeza l) as" by (simp add: bien_formada_def)
  then have "clear_loop h (cabeza l) = Some (borrar as h)" by (rule clear_loop_borrar)
  then show ?thesis by (simp add: clear_def)
qed

subsection \<open>Destroying one sensor\<close>

lemma bien_formada_cong:
  assumes "\<And>a. a \<in> set as \<Longrightarrow> lookup h' a = lookup h a"
  shows "bien_formada h' l as = bien_formada h l as"
  using tramo_cong [of as h' h "cabeza l" None, OF assms] by (simp add: bien_formada_def)

lemma sensor_ok_cong:
  assumes "lookup (sensores w') sp = lookup (sensores w) sp"
    and "k = Temperatura \<Longrightarrow> \<forall>x \<in> set c. lookup (nodosF w') x = lookup (nodosF w) x"
    and "k = Presion \<Longrightarrow> \<forall>x \<in> set c. lookup (nodosI w') x = lookup (nodosI w) x"
  shows "sensor_ok w' sp k c = sensor_ok w sp k c"
proof (cases k)
  case Temperatura
  with assms(2) have "\<And>l. bien_formada (nodosF w') l c = bien_formada (nodosF w) l c"
    by (intro bien_formada_cong) simp
  with Temperatura assms(1) show ?thesis by (simp add: sensor_ok_def split: option.splits)
next
  case Presion
  with assms(3) have "\<And>l. bien_formada (nodosI w') l c = bien_formada (nodosI w) l c"
    by (intro bien_formada_cong) simp
  with Presion assms(1) show ?thesis by (simp add: sensor_ok_def split: option.splits)
qed

lemma sensores_ok_cong:
  assumes "\<And>e. e \<in> set es \<Longrightarrow> lookup (sensores w') (fst e) = lookup (sensores w) (fst e)"
    and "\<And>e x. e \<in> set es \<Longrightarrow> fst (snd e) = Temperatura \<Longrightarrow> x \<in> set (snd (snd e)) \<Longrightarrow>
           lookup (nodosF w') x = lookup (nodosF w) x"
    and "\<And>e x. e \<in> set es \<Longrightarrow> fst (snd e) = Presion \<Longrightarrow> x \<in> set (snd (snd e)) \<Longrightarrow>
           lookup (nodosI w') x = lookup (nodosI w) x"
  shows "sensores_ok w' es = sensores_ok w es"
  using assms
proof (induction es)
  case Nil
  show ?case by simp
next
  case (Cons e es)
  have 1: "lookup (sensores w') (fst e) = lookup (sensores w) (fst e)"
    using Cons.prems(1) [of e] by simp
  have 2: "\<forall>x \<in> set (snd (snd e)). lookup (nodosF w') x = lookup (nodosF w) x"
    if "fst (snd e) = Temperatura"
    using Cons.prems(2) [of e] that by simp
  have 3: "\<forall>x \<in> set (snd (snd e)). lookup (nodosI w') x = lookup (nodosI w) x"
    if "fst (snd e) = Presion"
    using Cons.prems(3) [of e] that by simp
  have "sensor_ok w' (fst e) (fst (snd e)) (snd (snd e)) =
        sensor_ok w (fst e) (fst (snd e)) (snd (snd e))"
    using 1 2 3 by (rule sensor_ok_cong)
  moreover have "sensores_ok w' es = sensores_ok w es"
  proof (rule Cons.IH)
    fix e' assume "e' \<in> set es"
    then show "lookup (sensores w') (fst e') = lookup (sensores w) (fst e')"
      using Cons.prems(1) [of e'] by simp
  next
    fix e' x assume "e' \<in> set es" "fst (snd e') = Temperatura" "x \<in> set (snd (snd e'))"
    then show "lookup (nodosF w') x = lookup (nodosF w) x"
      using Cons.prems(2) [of e' x] by simp
  next
    fix e' x assume "e' \<in> set es" "fst (snd e') = Presion" "x \<in> set (snd (snd e'))"
    then show "lookup (nodosI w') x = lookup (nodosI w) x"
      using Cons.prems(3) [of e' x] by simp
  qed
  ultimately show ?case by simp
qed

lemma sensores_ok_distinct: "sensores_ok w es \<Longrightarrow> distinct (map fst es)"
  by (induction es) auto

lemma cadenas_de_simps:
  "cadenas_de k [] = []"
  "cadenas_de k (e # es) = (if fst (snd e) = k then snd (snd e) else []) @ cadenas_de k es"
  by (simp_all add: cadenas_de_def)

lemma delete_sensor_correcto:
  assumes "sensor_ok w sp k c"
  shows "delete_sensor (Some sp) w =
           Some (w\<lparr>nodosF := borrar (cadenas_de Temperatura [(sp, k, c)]) (nodosF w),
                   nodosI := borrar (cadenas_de Presion [(sp, k, c)]) (nodosI w),
                   sensores := borrar [sp] (sensores w),
                   destruidos := destruidos w @ [sp]\<rparr>)"
proof -
  from assms obtain s where s: "lookup (sensores w) sp = Some s" and k: "clase s = k"
    and bf: "case k of Temperatura \<Rightarrow> bien_formada (nodosF w) (historial s) c
             | Presion \<Rightarrow> bien_formada (nodosI w) (historial s) c"
    by (auto simp: sensor_ok_def split: option.splits)
  show ?thesis
  proof (cases k)
    case Temperatura
    with bf have "bien_formada (nodosF w) (historial s) c" by simp
    from clear_borrar [OF this] show ?thesis
      using s k Temperatura
      by (simp add: delete_sensor_def delete_def cadenas_de_simps borrar_simps)
  next
    case Presion
    with bf have "bien_formada (nodosI w) (historial s) c" by simp
    from clear_borrar [OF this] show ?thesis
      using s k Presion
      by (simp add: delete_sensor_def delete_def cadenas_de_simps borrar_simps)
  qed
qed


subsection \<open>The loop of liberarTodo\<close>

lemma tras_liberar_nada: "tras_liberar [] [] w = w"
  by (simp add: tras_liberar_def borrar_simps cadenas_de_simps)

lemma tras_liberar_Cons:
  "tras_liberar gs es (tras_liberar [a] [e] w) = tras_liberar (a # gs) (e # es) w"
  by (simp add: tras_liberar_def borrar_simps cadenas_de_simps)

lemma tras_liberar_campos:
  "nodosF (tras_liberar gs es w) = borrar (cadenas_de Temperatura es) (nodosF w)"
  "nodosI (tras_liberar gs es w) = borrar (cadenas_de Presion es) (nodosI w)"
  "sensores (tras_liberar gs es w) = borrar (map fst es) (sensores w)"
  "nodosG (tras_liberar gs es w) = borrar gs (nodosG w)"
  "destruidos (tras_liberar gs es w) = destruidos w @ map fst es"
  by (simp_all add: tras_liberar_def)

lemma sensores_ok_resto:
  assumes "sensores_ok w (e # es)"
  shows "sensores_ok (tras_liberar [a] [e] w) es"
proof -
  from assms have ok: "sensores_ok w es"
    and sep: "\<forall>e' \<in> set es. fst e' \<noteq> fst e \<and>
         (fst (snd e') = fst (snd e) \<longrightarrow> set (snd (snd e')) \<inter> set (snd (snd e)) = {})"
    by simp_all
  have "sensores_ok (tras_liberar [a] [e] w) es = sensores_ok w es"
  proof (rule sensores_ok_cong)
    fix e' assume "e' \<in> set es"
    with sep have "fst e' \<noteq> fst e" by blast
    then show "lookup (sensores (tras_liberar [a] [e] w)) (fst e') = lookup (sensores w) (fst e')"
      by (simp add: tras_liberar_campos lookup_borrar)
  next
    fix e' x assume h: "e' \<in> set es" "fst (snd e') = Temperatura" "x \<in> set (snd (snd e'))"
    with sep have "fst (snd e) = Temperatura \<longrightarrow> x \<notin> set (snd (snd e))" by fastforce
    then show "lookup (nodosF (tras_liberar [a] [e] w)) x = lookup (nodosF w) x"
      by (auto simp: tras_liberar_campos lookup_borrar cadenas_de_simps)
  next
    fix e' x assume h: "e' \<in> set es" "fst (snd e') = Presion" "x \<in> set (snd (snd e'))"
    with sep have "fst (snd e) = Presion \<longrightarrow> x \<notin> set (snd (snd e))" by fastforce
    then show "lookup (nodosI (tras_liberar [a] [e] w)) x = lookup (nodosI w) x"
      by (auto simp: tras_liberar_campos lookup_borrar cadenas_de_simps)
  qed
  with ok show ?thesis by simp
qed

lemma liberar_loop_correcto:
  assumes "cadena (nodosG w) it gs" and "datos (nodosG w) gs = map (\<lambda>e. Some (fst e)) es"
    and "sensores_ok w es"
  shows "liberar_loop w it = Some (tras_liberar gs es w)"
  using assms
proof (induction gs arbitrary: w it es)
  case Nil
  then have "es = []" by (simp add: datos_def)
  moreover from Nil have "liberar_loop w it = Some w"
    by (subst liberar_loop.simps) simp
  ultimately show ?case by (simp add: tras_liberar_nada)
next
  case (Cons a gs)
  from Cons.prems(1) obtain nd where it: "it = Some a" and nd: "lookup (nodosG w) a = Some nd"
    and tl: "cadena (nodosG w) (siguiente nd) gs"
    by (auto split: option.splits)
  from Cons.prems(2) nd obtain e es' where es: "es = e # es'" and sn: "sensor nd = Some (fst e)"
    and d': "datos (nodosG w) gs = map (\<lambda>e. Some (fst e)) es'"
    by (cases es) (auto simp: datos_def)
  have "distinct (a # gs)" using Cons.prems(1) by (rule cadena_distinct)
  then have anot: "a \<notin> set gs" by simp
  from Cons.prems(3) es have sok: "sensor_ok w (fst e) (fst (snd e)) (snd (snd e))"
    and oks: "sensores_ok w (e # es')"
    by simp_all
  let ?w1 = "w\<lparr>nodosF := borrar (cadenas_de Temperatura [e]) (nodosF w),
                nodosI := borrar (cadenas_de Presion [e]) (nodosI w),
                sensores := borrar [fst e] (sensores w),
                destruidos := destruidos w @ [fst e]\<rparr>"
  have ds: "delete_sensor (Some (fst e)) w = Some ?w1"
    using delete_sensor_correcto [OF sok] by simp
  have dn: "delete a (nodosG w) = Some (borrar [a] (nodosG w))"
    using nd by (simp add: delete_def borrar_simps)
  have w2: "?w1\<lparr>nodosG := borrar [a] (nodosG w)\<rparr> = tras_liberar [a] [e] w"
    by (simp add: tras_liberar_def)
  have step: "liberar_loop w it = liberar_loop (tras_liberar [a] [e] w) (siguiente nd)"
    by (subst liberar_loop.simps) (simp add: it nd sn ds dn w2)
  have same: "lookup (nodosG (tras_liberar [a] [e] w)) b = lookup (nodosG w) b" if "b \<in> set gs" for b
    using that anot by (auto simp: tras_liberar_campos lookup_borrar)
  have "tramo (nodosG (tras_liberar [a] [e] w)) (siguiente nd) gs None =
        tramo (nodosG w) (siguiente nd) gs None"
    by (rule tramo_cong) (rule same)
  with tl have tl2: "cadena (nodosG (tras_liberar [a] [e] w)) (siguiente nd) gs" by simp
  have "datos (nodosG (tras_liberar [a] [e] w)) gs = datos (nodosG w) gs"
    by (rule datos_cong) (rule same)
  with d' have d2: "datos (nodosG (tras_liberar [a] [e] w)) gs = map (\<lambda>e. Some (fst e)) es'"
    by simp
  have ok2: "sensores_ok (tras_liberar [a] [e] w) es'"
    using oks by (rule sensores_ok_resto)
  have "liberar_loop (tras_liberar [a] [e] w) (siguiente nd) =
        Some (tras_liberar gs es' (tras_liberar [a] [e] w))"
    using tl2 d2 ok2 by (rule Cons.IH)
  then show ?case unfolding step es by (simp add: tras_liberar_Cons)
qed

lemma liberarTodo_correcto:
  assumes "registro_ok w g gs es"
  shows "liberarTodo (w, g) = Some (tras_liberar gs es w, ListaSensor_vacia)"
proof -
  from assms have bf: "bien_formada (nodosG w) g gs"
    and da: "datos (nodosG w) gs = map (\<lambda>e. Some (fst e)) es" and ok: "sensores_ok w es"
    by (simp_all add: registro_ok_def)
  from bf have ch: "cadena (nodosG w) (cabeza g) gs" by (simp add: bien_formada_def)
  show ?thesis
  proof (cases gs)
    case Nil
    with bf have g: "g = ListaSensor_vacia"
      by (simp add: bien_formada_def ListaSensor_vacia_def)
    from Nil da have "es = []" by (simp add: datos_def)
    with Nil g show ?thesis
      by (simp add: liberarTodo_def ListaSensor_vacia_def tras_liberar_nada)
  next
    case (Cons a gs')
    with ch have cab: "cabeza g = Some a" by simp
    have "liberar_loop w (cabeza g) = Some (tras_liberar gs es w)"
      using ch da ok by (rule liberar_loop_correcto)
    with cab show ?thesis
      by (simp add: liberarTodo_def ListaSensor_vacia_def)
  qed
qed


lemma cadenas_de_contiene:
  "e \<in> set es \<Longrightarrow> fst (snd e) = k \<Longrightarrow> x \<in> set (snd (snd e)) \<Longrightarrow> x \<in> set (cadenas_de k es)"
  by (auto simp: cadenas_de_def)

text \<open>
  C7. In a well-formed registry over the nodes \<open>gs\<close> and the sensors \<open>es\<close>, \<^verbatim>\<open>liberarTodo\<close>
  returns; the sensors it has destroyed are those of \<open>es\<close>, each once, in the order of the
  registry, which is the order of insertion; afterwards every one of these sensors, every
  node of their histories and every node of the registry is released, and the registry is
  the empty list. A second call, like any call on an empty registry, changes nothing. The
  destructor of the registry does what \<^verbatim>\<open>liberarTodo\<close> does.
\<close>

theorem liberarTodo_releases_in_order:
  assumes "registro_ok w g gs es"
  shows "\<exists>w'. liberarTodo (w, g) = Some (w', ListaSensor_vacia) \<and>
           destruidos w' = destruidos w @ map fst es \<and> distinct (map fst es) \<and>
           (\<forall>e \<in> set es. lookup (sensores w') (fst e) = None) \<and>
           (\<forall>e \<in> set es. \<forall>x \<in> set (snd (snd e)).
              (case fst (snd e) of
                 Temperatura \<Rightarrow> lookup (nodosF w') x = None
               | Presion \<Rightarrow> lookup (nodosI w') x = None)) \<and>
           (\<forall>a \<in> set gs. lookup (nodosG w') a = None) \<and>
           registro_ok w' ListaSensor_vacia [] [] \<and>
           liberarTodo (w', ListaSensor_vacia) = Some (w', ListaSensor_vacia) \<and>
           ListaGeneral_destructor (w, g) = Some w' \<and>
           (gs = [] \<longrightarrow> liberarTodo (w, g) = Some (w, g))"
proof -
  let ?w' = "tras_liberar gs es w"
  have lt: "liberarTodo (w, g) = Some (?w', ListaSensor_vacia)"
    using assms by (rule liberarTodo_correcto)
  have de: "destruidos ?w' = destruidos w @ map fst es"
    by (simp add: tras_liberar_campos)
  have di: "distinct (map fst es)"
    using assms unfolding registro_ok_def by (elim conjE) (rule sensores_ok_distinct)
  have se: "\<forall>e \<in> set es. lookup (sensores ?w') (fst e) = None"
    by (simp add: tras_liberar_campos lookup_borrar)
  have no: "\<forall>e \<in> set es. \<forall>x \<in> set (snd (snd e)).
              (case fst (snd e) of
                 Temperatura \<Rightarrow> lookup (nodosF ?w') x = None
               | Presion \<Rightarrow> lookup (nodosI ?w') x = None)"
  proof (intro ballI)
    fix e x assume h: "e \<in> set es" "x \<in> set (snd (snd e))"
    show "case fst (snd e) of
            Temperatura \<Rightarrow> lookup (nodosF ?w') x = None
          | Presion \<Rightarrow> lookup (nodosI ?w') x = None"
    proof (cases "fst (snd e)")
      case Temperatura
      with h have "x \<in> set (cadenas_de Temperatura es)" by (intro cadenas_de_contiene)
      with Temperatura show ?thesis by (simp add: tras_liberar_campos lookup_borrar)
    next
      case Presion
      with h have "x \<in> set (cadenas_de Presion es)" by (intro cadenas_de_contiene)
      with Presion show ?thesis by (simp add: tras_liberar_campos lookup_borrar)
    qed
  qed
  have ng: "\<forall>a \<in> set gs. lookup (nodosG ?w') a = None"
    by (simp add: tras_liberar_campos lookup_borrar)
  have ro: "registro_ok ?w' ListaSensor_vacia [] []"
    by (simp add: registro_ok_def bien_formada_vacia datos_def)
  have again: "liberarTodo (?w', ListaSensor_vacia) = Some (?w', ListaSensor_vacia)"
    using liberarTodo_correcto [OF ro] by (simp add: tras_liberar_nada)
  have dt: "ListaGeneral_destructor (w, g) = Some ?w'"
    using lt by (simp add: ListaGeneral_destructor_def)
  have em: "gs = [] \<longrightarrow> liberarTodo (w, g) = Some (w, g)"
  proof
    assume "gs = []"
    with assms have "cabeza g = None" by (simp add: registro_ok_def bien_formada_def)
    then show "liberarTodo (w, g) = Some (w, g)" by (simp add: liberarTodo_def)
  qed
  show ?thesis using lt de di se no ng ro again dt em
    by (intro exI [of _ ?w'] conjI)
qed

theorem liberarTodo_releases_in_order_witness:
  "registro_ok
     \<lparr>nodosF = [Some \<lparr>dato = 3 / 2, siguiente = None\<rparr>],
      nodosI = [Some \<lparr>dato = 80, siguiente = Some 1\<rparr>, Some \<lparr>dato = 90, siguiente = None\<rparr>],
      sensores =
        [Some ((SensorTemperatura ''T-001'')
                 \<lparr>historial := \<lparr>cabeza = Some 0, cola = Some 0, n_elems = 1\<rparr>\<rparr>),
         Some ((SensorPresion ''P-001'')
                 \<lparr>historial := \<lparr>cabeza = Some 0, cola = Some 1, n_elems = 2\<rparr>\<rparr>)],
      nodosG = [Some \<lparr>dato = Some 0, siguiente = Some 1\<rparr>, Some \<lparr>dato = Some 1, siguiente = None\<rparr>],
      destruidos = []\<rparr>
     \<lparr>cabeza = Some 0, cola = Some 1, n_elems = 2\<rparr> [0, 1]
     [(0, Temperatura, [0]), (1, Presion, [0, 1])] \<and>
   (\<exists>w'. liberarTodo
            (\<lparr>nodosF = [Some \<lparr>dato = 3 / 2, siguiente = None\<rparr>],
              nodosI = [Some \<lparr>dato = 80, siguiente = Some 1\<rparr>,
                        Some \<lparr>dato = 90, siguiente = None\<rparr>],
              sensores =
                [Some ((SensorTemperatura ''T-001'')
                         \<lparr>historial := \<lparr>cabeza = Some 0, cola = Some 0, n_elems = 1\<rparr>\<rparr>),
                 Some ((SensorPresion ''P-001'')
                         \<lparr>historial := \<lparr>cabeza = Some 0, cola = Some 1, n_elems = 2\<rparr>\<rparr>)],
              nodosG = [Some \<lparr>dato = Some 0, siguiente = Some 1\<rparr>,
                        Some \<lparr>dato = Some 1, siguiente = None\<rparr>],
              destruidos = []\<rparr>,
             \<lparr>cabeza = Some 0, cola = Some 1, n_elems = 2\<rparr>) = Some (w', ListaSensor_vacia) \<and>
          destruidos w' = [0, 1] \<and>
          lookup (sensores w') 0 = None \<and> lookup (sensores w') 1 = None \<and>
          lookup (nodosF w') 0 = None \<and> lookup (nodosI w') 0 = None \<and>
          lookup (nodosI w') 1 = None \<and>
          lookup (nodosG w') 0 = None \<and> lookup (nodosG w') 1 = None)"
proof -
  let ?w = "\<lparr>nodosF = [Some \<lparr>dato = 3 / 2, siguiente = None\<rparr>],
      nodosI = [Some \<lparr>dato = 80, siguiente = Some 1\<rparr>, Some \<lparr>dato = 90, siguiente = None\<rparr>],
      sensores =
        [Some ((SensorTemperatura ''T-001'')
                 \<lparr>historial := \<lparr>cabeza = Some 0, cola = Some 0, n_elems = 1\<rparr>\<rparr>),
         Some ((SensorPresion ''P-001'')
                 \<lparr>historial := \<lparr>cabeza = Some 0, cola = Some 1, n_elems = 2\<rparr>\<rparr>)],
      nodosG = [Some \<lparr>dato = Some 0, siguiente = Some 1\<rparr>, Some \<lparr>dato = Some 1, siguiente = None\<rparr>],
      destruidos = []\<rparr>"
  let ?g = "\<lparr>cabeza = Some 0, cola = Some 1, n_elems = 2\<rparr>"
  let ?es = "[(0, Temperatura, [0]), (1, Presion, [0, 1])]"
  have ro: "registro_ok ?w ?g [0, 1] ?es"
    by (simp add: registro_ok_def bien_formada_def lookup_def datos_def sensor_ok_def
        SensorTemperatura_def SensorPresion_def)
  show ?thesis using liberarTodo_releases_in_order [OF ro] ro by auto
qed

end
